theory Spec2Isabelle
  imports Main "HOL-Library.Log_Nat"
begin

section \<open>JavaScript strings and Map objects\<close>

text \<open>
  A string of the model is a \<^typ>\<open>string\<close>: a JavaScript string whose UTF-16 code
  units all lie below \<open>U+0100\<close>, one \<^typ>\<open>char\<close> per code unit. On these the
  character classes and case mappings below are the ones of the language. Numbers that
  the code only uses as counts, indices, millisecond clocks and sizes are modelled as
  \<^typ>\<open>nat\<close> or \<^typ>\<open>int\<close>.
\<close>

definition isWhiteSpace :: "char \<Rightarrow> bool" where
  \<comment> \<open>what \<open>trim\<close> strips and the class \<open>\s\<close> matches, below \<open>U+0100\<close>: TAB, LF, VT,
      FF, CR, SPACE and NO-BREAK SPACE\<close>
  "isWhiteSpace c =
     (c \<in> set [CHR 0x09, CHR 0x0A, CHR 0x0B, CHR 0x0C, CHR 0x0D, CHR 0x20, CHR 0xA0])"

definition isDigit :: "char \<Rightarrow> bool" where
  "isDigit c = (48 \<le> (of_char c :: nat) \<and> (of_char c :: nat) \<le> 57)"

definition isUpperAZ :: "char \<Rightarrow> bool" where
  "isUpperAZ c = (65 \<le> (of_char c :: nat) \<and> (of_char c :: nat) \<le> 90)"

definition isUpperLatin1 :: "char \<Rightarrow> bool" where
  \<comment> \<open>the capital letters \<open>U+00C0\<close> to \<open>U+00DE\<close>; \<open>U+00D7\<close> is the multiplication sign\<close>
  "isUpperLatin1 c =
     (192 \<le> (of_char c :: nat) \<and> (of_char c :: nat) \<le> 222 \<and> (of_char c :: nat) \<noteq> 215)"

definition lowerChar :: "char \<Rightarrow> char" where
  "lowerChar c =
     (if isUpperAZ c \<or> isUpperLatin1 c then char_of ((of_char c :: nat) + 32) else c)"

definition toLowerCase :: "string \<Rightarrow> string" where
  "toLowerCase s = map lowerChar s"

definition trim :: "string \<Rightarrow> string" where
  "trim s = rev (dropWhile isWhiteSpace (rev (dropWhile isWhiteSpace s)))"

definition substring0 :: "nat \<Rightarrow> string \<Rightarrow> string" where
  \<comment> \<open>\<open>s.substring(0, n)\<close>\<close>
  "substring0 n s = take n s"

fun str_includes :: "string \<Rightarrow> string \<Rightarrow> bool" where
  \<comment> \<open>\<open>s.includes(sub)\<close>\<close>
  "str_includes [] sub = (sub = [])"
| "str_includes (c # cs) sub = (take (length sub) (c # cs) = sub \<or> str_includes cs sub)"

text \<open>
  A JavaScript \<open>Map\<close> keeps its entries in insertion order, and \<open>set\<close> on a key
  that is already present replaces the value where the key stands. It is modelled as an
  association list in that order.
\<close>

fun Map_set :: "('k \<times> 'v) list \<Rightarrow> 'k \<Rightarrow> 'v \<Rightarrow> ('k \<times> 'v) list" where
  "Map_set [] k v = [(k, v)]"
| "Map_set ((k', v') # m) k v = (if k' = k then (k, v) # m else (k', v') # Map_set m k v)"

definition Map_get :: "('k \<times> 'v) list \<Rightarrow> 'k \<Rightarrow> 'v option" where
  "Map_get m k = map_of m k"

definition Map_delete :: "('k \<times> 'v) list \<Rightarrow> 'k \<Rightarrow> ('k \<times> 'v) list" where
  "Map_delete m k = filter (\<lambda>p. fst p \<noteq> k) m"

definition Map_first_key :: "('k \<times> 'v) list \<Rightarrow> 'k option" where
  \<comment> \<open>\<open>m.keys().next().value\<close>, \<open>undefined\<close> on the empty map\<close>
  "Map_first_key m = (case m of [] \<Rightarrow> None | p # _ \<Rightarrow> Some (fst p))"

definition Map_size :: "('k \<times> 'v) list \<Rightarrow> int" where
  "Map_size m = int (length m)"

section \<open>The search cache (\<open>lib/search-cache.ts\<close>)\<close>

text \<open>
  The class \<open>SearchCache\<close> is not exported: the module builds one cache,
  \<open>new SearchCache(100, 5)\<close>, and exports that. Capacity and minutes are integers in the
  model, as they are there; clock readings are integers (milliseconds).
\<close>

record 'r CacheEntry =
  results :: "'r list"
  timestamp :: int

record 'r SearchCache =
  cache :: "(string \<times> 'r CacheEntry) list"
  maxSize :: int
  ttl :: int

definition SearchCache_new :: "int \<Rightarrow> int \<Rightarrow> 'r SearchCache" where
  \<comment> \<open>\<open>constructor(maxSize = 100, ttlMinutes = 5)\<close>\<close>
  "SearchCache_new maxSize' ttlMinutes =
     \<lparr>cache = [], maxSize = maxSize', ttl = ttlMinutes * 60 * 1000\<rparr>"

definition getCacheKey :: "string \<Rightarrow> string \<Rightarrow> string" where
  "getCacheKey query materialId =
     (let queryKey = trim (toLowerCase (substring0 100 query))
      in materialId @ '':'' @ queryKey)"

definition cache_get :: "'r SearchCache \<Rightarrow> string \<Rightarrow> string \<Rightarrow> int \<Rightarrow> 'r list option \<times> 'r SearchCache" where
  \<comment> \<open>\<open>get(query, materialId)\<close> at clock reading \<open>now\<close>; \<open>None\<close> is \<open>null\<close>\<close>
  "cache_get c query materialId now =
     (let key = getCacheKey query materialId in
      case Map_get (cache c) key of
        None \<Rightarrow> (None, c)
      | Some entry \<Rightarrow>
          if now - timestamp entry > ttl c
          then (None, c\<lparr>cache := Map_delete (cache c) key\<rparr>)
          else (Some (results entry), c))"

definition cache_set :: "'r SearchCache \<Rightarrow> string \<Rightarrow> string \<Rightarrow> 'r list \<Rightarrow> int \<Rightarrow> 'r SearchCache" where
  \<comment> \<open>\<open>set(query, materialId, results)\<close> at clock reading \<open>now\<close>\<close>
  "cache_set c query materialId rs now =
     (let key = getCacheKey query materialId;
          m = (if Map_size (cache c) \<ge> maxSize c
               then (case Map_first_key (cache c) of
                       None \<Rightarrow> cache c
                     | Some oldestKey \<Rightarrow> Map_delete (cache c) oldestKey)
               else cache c)
      in c\<lparr>cache := Map_set m key \<lparr>results = rs, timestamp = now\<rparr>\<rparr>)"

definition cache_clear :: "'r SearchCache \<Rightarrow> 'r SearchCache" where
  "cache_clear c = c\<lparr>cache := []\<rparr>"

definition getStats :: "'r SearchCache \<Rightarrow> int \<times> int \<times> int" where
  "getStats c = (Map_size (cache c), maxSize c, ttl c)"

text \<open>
  A client of the cache is a sequence of calls, each with the clock reading
  (\<open>Date.now()\<close>) at which it runs.
\<close>

datatype 'r cache_call =
    CallGet string string int
  | CallSet string string "'r list" int
  | CallClear

fun cache_apply :: "'r SearchCache \<Rightarrow> 'r cache_call \<Rightarrow> 'r SearchCache" where
  "cache_apply c (CallGet q m now) = snd (cache_get c q m now)"
| "cache_apply c (CallSet q m rs now) = cache_set c q m rs now"
| "cache_apply c CallClear = cache_clear c"

fun cache_run :: "'r SearchCache \<Rightarrow> 'r cache_call list \<Rightarrow> 'r SearchCache" where
  "cache_run c [] = c"
| "cache_run c (x # xs) = cache_run (cache_apply c x) xs"



definition set_call :: "string \<times> string \<times> 'r list \<times> int \<Rightarrow> 'r cache_call" where
  "set_call x = (case x of (q, m, rs, now) \<Rightarrow> CallSet q m rs now)"

definition set_key :: "string \<times> string \<times> 'r list \<times> int \<Rightarrow> string" where
  "set_key x = (case x of (q, m, rs, now) \<Rightarrow> getCacheKey q m)"

definition cache_inv :: "'r SearchCache \<Rightarrow> bool" where
  \<comment> \<open>a \<open>Map\<close> has no key twice, and the cache is within its capacity\<close>
  "cache_inv c = (distinct (map fst (cache c)) \<and> Map_size (cache c) \<le> maxSize c)"

section \<open>Thrown values\<close>

text \<open>
  What a \<open>catch\<close> clause can receive: an instance of \<open>Error\<close>, some other object, or a
  primitive value (a string, a number, \<open>undefined\<close>, \<open>null\<close>), on which every property
  read by the handlers is \<open>undefined\<close>. Of an object the handlers read three
  properties: \<open>code\<close> (only compared with strings: \<open>None\<close> stands for any value that is
  not a string), \<open>status\<close> (only compared with a number: \<open>None\<close> stands for any value
  that is not a number) and \<open>message\<close>. The message need not be a string; of a value
  that is neither a string nor \<open>undefined\<close> or \<open>null\<close> the model keeps whether it is
  truthy, what it gives in a template string, and what calling its \<open>includes\<close> with a
  string does: return a truthy or falsy value, or throw (as it does, with a
  \<open>TypeError\<close>, on a number, which has no such method). Reading a property is taken
  not to throw.
\<close>

datatype thrown =
    ErrorObject "string option" message_value "int option"
  | PlainObject "string option" message_value "int option"
  | Primitive
and message_value =
    MessageUndefined
  | MessageNull
  | MessageString string
  | MessageOther bool string "string \<Rightarrow> thrown + bool"

fun instanceofError :: "thrown \<Rightarrow> bool" where
  "instanceofError (ErrorObject c m s) = True"
| "instanceofError _ = False"

fun thrown_code :: "thrown \<Rightarrow> string option" where
  "thrown_code (ErrorObject c m s) = c"
| "thrown_code (PlainObject c m s) = c"
| "thrown_code Primitive = None"

fun thrown_message :: "thrown \<Rightarrow> message_value" where
  "thrown_message (ErrorObject c m s) = m"
| "thrown_message (PlainObject c m s) = m"
| "thrown_message Primitive = MessageUndefined"

fun thrown_status :: "thrown \<Rightarrow> int option" where
  "thrown_status (ErrorObject c m s) = s"
| "thrown_status (PlainObject c m s) = s"
| "thrown_status Primitive = None"

definition new_Error :: "string \<Rightarrow> thrown" where
  "new_Error msg = ErrorObject None (MessageString msg) None"

definition not_a_function :: "string \<Rightarrow> thrown" where
  \<comment> \<open>calling a method that a value does not have: \<open>TypeError: f is not a function\<close>\<close>
  "not_a_function f = new_Error (f @ '' is not a function'')"


fun message_includes :: "message_value \<Rightarrow> string \<Rightarrow> thrown + bool" where
  \<comment> \<open>\<open>message.includes(sub)\<close> on a message that is not \<open>undefined\<close> or \<open>null\<close>\<close>
  "message_includes (MessageString s) sub = Inr (str_includes s sub)"
| "message_includes (MessageOther truthy txt incl) sub = incl sub"
| "message_includes m sub = Inl (not_a_function ''message.includes'')"

section \<open>The retry policy (\<open>executeWithRetry\<close> in \<open>lib/prisma.ts\<close>)\<close>

fun message_or_empty :: "message_value \<Rightarrow> message_value" where
  \<comment> \<open>\<open>message || ''\<close>\<close>
  "message_or_empty (MessageString s) = MessageString s"
| "message_or_empty (MessageOther truthy txt incl) =
     (if truthy then MessageOther truthy txt incl else MessageString [])"
| "message_or_empty m = MessageString []"

definition retryable :: "thrown \<Rightarrow> thrown + bool" where
  \<comment> \<open>the value of \<open>retryable\<close>, or \<open>Inl\<close> what evaluating it throws. The operands of
      \<open>||\<close> are evaluated from the left, up to the first that is truthy.\<close>
  "retryable error =
     (let code = thrown_code error;
          message = message_or_empty (thrown_message error)
      in if code = Some ''P1001'' \<or> code = Some ''P1002'' \<or> code = Some ''P1008'' \<or>
            code = Some ''P1017'' then Inr True
         else case message_includes message ''ECONNREFUSED'' of
                Inl e \<Rightarrow> Inl e
              | Inr found \<Rightarrow>
                  if found then Inr True else message_includes message ''ETIMEDOUT'')"

definition backoff_delay :: "nat \<Rightarrow> int" where
  \<comment> \<open>\<open>Math.min(1000 * Math.pow(2, attempt), 5000)\<close>\<close>
  "backoff_delay attempt = min (1000 * 2 ^ attempt) 5000"

record 'a retry_run =
  outcome :: "thrown + 'a"
  invocations :: nat
  delays :: "int list"

definition throw_lastError :: "thrown option \<Rightarrow> thrown" where
  \<comment> \<open>\<open>throw lastError ?? new Error('Unknown database error')\<close>\<close>
  "throw_lastError lastError =
     (case lastError of None \<Rightarrow> new_Error ''Unknown database error'' | Some e \<Rightarrow> e)"

text \<open>
  The operation is called once per attempt, one call after the other; \<open>operation i\<close> is
  how its call number \<open>i\<close> (from 0) settles: \<open>Inl\<close> a rejection, \<open>Inr\<close> the value. The
  loop is run from \<open>attempt\<close> with the \<open>lastError\<close> recorded so far; the result says how
  the promise settles, how many calls were made in all, and the sleeps in order. An
  exception thrown inside the \<open>catch\<close> block (by \<open>message.includes\<close>) leaves the function:
  the promise is rejected with it. \<open>maxRetries\<close> is an integer (2 unless the caller gives
  another).
\<close>

function retry_loop :: "(nat \<Rightarrow> thrown + 'a) \<Rightarrow> int \<Rightarrow> nat \<Rightarrow> thrown option \<Rightarrow> 'a retry_run" where
  "retry_loop operation maxRetries attempt lastError =
     (if int attempt \<le> maxRetries then
        (case operation attempt of
           Inr v \<Rightarrow> \<lparr>outcome = Inr v, invocations = Suc attempt, delays = []\<rparr>
         | Inl error \<Rightarrow>
            (let lastError' = (if instanceofError error then Some error else lastError) in
             case retryable error of
               Inl thrown_in_catch \<Rightarrow>
                 \<lparr>outcome = Inl thrown_in_catch, invocations = Suc attempt, delays = []\<rparr>
             | Inr retryable' \<Rightarrow>
                 if \<not> retryable' \<or> int attempt = maxRetries
                 then \<lparr>outcome = Inl (throw_lastError lastError'),
                       invocations = Suc attempt, delays = []\<rparr>
                 else (let r = retry_loop operation maxRetries (Suc attempt) lastError'
                       in r\<lparr>delays := backoff_delay attempt # delays r\<rparr>)))
      else \<lparr>outcome = Inl (throw_lastError lastError), invocations = attempt, delays = []\<rparr>)"
  by pat_completeness auto
termination
  by (relation "measure (\<lambda>(operation, maxRetries, attempt, lastError). nat (maxRetries + 1 - int attempt))") auto

declare retry_loop.simps [simp del]

definition executeWithRetry :: "(nat \<Rightarrow> thrown + 'a) \<Rightarrow> int \<Rightarrow> 'a retry_run" where
  "executeWithRetry operation maxRetries = retry_loop operation maxRetries 0 None"

definition observed_errors :: "(nat \<Rightarrow> thrown + 'a) \<Rightarrow> nat \<Rightarrow> nat \<Rightarrow> thrown list" where
  \<comment> \<open>the rejections of the calls number \<open>a\<close> to \<open>n - 1\<close>, in order\<close>
  "observed_errors operation a n =
     concat (map (\<lambda>i. case operation i of Inl e \<Rightarrow> [e] | Inr v \<Rightarrow> []) [a..<n])"

definition record_error :: "thrown option \<Rightarrow> thrown \<Rightarrow> thrown option" where
  \<comment> \<open>\<open>if (error instanceof Error) { lastError = error }\<close>\<close>
  "record_error lastError error = (if instanceofError error then Some error else lastError)"

definition record_errors :: "thrown option \<Rightarrow> thrown list \<Rightarrow> thrown option" where
  "record_errors lastError es = foldl record_error lastError es"

text \<open>
  Three operations to run the policy on: one that cannot reach the database twice and
  then answers; one whose first rejection is an \<open>Error\<close> and whose later rejections are
  plain objects carrying a Prisma code; and one that rejects with \<open>{ message: 42 }\<close>.
\<close>

definition flaky_operation :: "nat \<Rightarrow> thrown + nat" where
  "flaky_operation i =
     (if i < 2 then Inl (ErrorObject (Some ''P1001'') (MessageString ''Can not reach database server'') None)
      else Inr 42)"

definition mixed_operation :: "nat \<Rightarrow> thrown + nat" where
  "mixed_operation i =
     (if i = 0 then Inl (ErrorObject None (MessageString ''connect ECONNREFUSED 127.0.0.1:5432'') None)
      else Inl (PlainObject (Some ''P1001'') MessageUndefined None))"

definition numeric_message_operation :: "nat \<Rightarrow> thrown + nat" where
  "numeric_message_operation i =
     Inl (PlainObject None
            (MessageOther True ''42'' (\<lambda>sub. Inl (not_a_function ''message.includes''))) None)"

section \<open>The world the server code runs in\<close>

text \<open>
  The relational store (Prisma) is modelled as state: the tables the code reads and
  writes. The vector index (Pinecone), the embedding models and the language model are
  outside the program: the model records every call made to them, in order, with the
  arguments, and takes how each call settles from an environment given to the function
  (one outcome per call site, so that any behaviour of the collaborators is some
  environment). Every awaited call is taken to settle.
\<close>

datatype ProcessingStatus = PENDING | PROCESSING | READY | ERROR
  \<comment> \<open>Modelled from the spec: the Prisma enum behind \<open>processingStatus\<close> (the schema is
      not among the sources); the code names \<open>'PROCESSING'\<close>, \<open>'READY'\<close> and \<open>'ERROR'\<close>.\<close>

record Material =
  processingStatus :: ProcessingStatus
  pageCount :: int
  author :: "string option"
  wholeSummary :: "string option"

record PracticeQuestion =
  pq_question :: string
  pq_answer :: string

datatype number = Number nat | Infinity
  \<comment> \<open>a JavaScript number that came from \<open>parseInt\<close> of decimal digits, or is a literal\<close>

record Chapter =
  ch_materialId :: string
  ch_number :: number
  ch_title :: string
  ch_pageStart :: nat
  ch_pageEnd :: nat
  summaryBrief :: string
  summaryStandard :: string
  summaryDetailed :: string
  practiceQuestions :: "PracticeQuestion list"

record Concept =
  co_materialId :: string
  co_term :: string
  co_definition :: string
  co_category :: string
  co_chapterNumber :: number

record TextChunk =
  tc_id :: string
  tc_materialId :: string
  tc_text :: string
  tc_pageNumber :: int
  tc_chapterNumber :: int

datatype meta_value = MetaString string | MetaNumber int

record 'v VectorRecord =
  vec_id :: string
  vec_values :: "'v option"
  vec_metadata :: "(string \<times> meta_value) list"

record SearchResult =
  sr_text :: string
  sr_pageNumber :: int
  sr_score :: rat

definition searchCache :: "SearchResult SearchCache" where
  \<comment> \<open>the singleton that \<open>lib/search-cache.ts\<close> exports\<close>
  "searchCache = SearchCache_new 100 5"

datatype 'v extern_call =
    LocalEmbeddingsBatch "string list"
  | LocalEmbedding string
  | GeminiEmbedding string
  | IndexUpsert "'v VectorRecord list"
  | IndexQuery 'v nat string
  | IndexDeleteMany string
  | AnswerQuestion string string "(string \<times> string) list" bool
  | GenerateSummary string string
  | GeneratePracticeQuestions string nat
  | ExtractKeyConcepts string

record 'v world =
  index_configured :: bool
  database_url_set :: bool
  materials :: "(string \<times> Material) list"
  chapters :: "Chapter list"
  concepts :: "Concept list"
  textChunks :: "TextChunk list"
  searchCache_state :: "SearchResult SearchCache"
  extern_calls :: "'v extern_call list"

definition call :: "'v extern_call \<Rightarrow> 'v world \<Rightarrow> 'v world" where
  "call c w = w\<lparr>extern_calls := extern_calls w @ [c]\<rparr>"

section \<open>The vector store adapter (\<open>lib/pinecone.ts\<close>)\<close>

record Chunk =
  chunk_id :: string
  chunk_text :: string
  chunk_pageNumber :: int
  chunk_chapterNumber :: "int option"

record 'v upsert_env =
  deleteMany_fails :: "thrown option"
  create_fails :: "nat \<Rightarrow> thrown option"
  embeddings_batch :: "thrown + 'v list"
  upsert_fails :: "nat \<Rightarrow> thrown option"

definition or_zero :: "int option \<Rightarrow> int" where
  \<comment> \<open>\<open>n || 0\<close> on an optional number\<close>
  "or_zero n = (case n of None \<Rightarrow> 0 | Some k \<Rightarrow> k)"

definition element_at :: "'a list \<Rightarrow> nat \<Rightarrow> 'a option" where
  \<comment> \<open>\<open>xs[i]\<close>, \<open>undefined\<close> out of range\<close>
  "element_at xs i = (if i < length xs then Some (xs ! i) else None)"

fun create_textChunks ::
  "'v upsert_env \<Rightarrow> string \<Rightarrow> nat \<Rightarrow> Chunk list \<Rightarrow> 'v world \<Rightarrow> 'v world \<times> thrown option" where
  "create_textChunks env materialId i [] w = (w, None)"
| "create_textChunks env materialId i (chunk # rest) w =
     (case create_fails env i of
        Some e \<Rightarrow> (w, Some e)
      | None \<Rightarrow>
          create_textChunks env materialId (Suc i) rest
            (w\<lparr>textChunks := textChunks w @
               [\<lparr>tc_id = chunk_id chunk, tc_materialId = materialId, tc_text = chunk_text chunk,
                 tc_pageNumber = chunk_pageNumber chunk,
                 tc_chapterNumber = or_zero (chunk_chapterNumber chunk)\<rparr>]\<rparr>))"

definition chunk_vector :: "string \<Rightarrow> 'v list \<Rightarrow> nat \<Rightarrow> Chunk \<Rightarrow> 'v VectorRecord" where
  "chunk_vector materialId embeddings i chunk =
     \<lparr>vec_id = chunk_id chunk,
      vec_values = element_at embeddings i,
      vec_metadata =
        [(''materialId'', MetaString materialId),
         (''pageNumber'', MetaNumber (chunk_pageNumber chunk)),
         (''chapterNumber'', MetaNumber (or_zero (chunk_chapterNumber chunk)))]\<rparr>"

definition map_indexed :: "(nat \<Rightarrow> 'a \<Rightarrow> 'b) \<Rightarrow> 'a list \<Rightarrow> 'b list" where
  \<comment> \<open>\<open>xs.map((x, index) => f(index, x))\<close>\<close>
  "map_indexed f xs = map (\<lambda>(i, x). f i x) (enumerate 0 xs)"

function upsert_batches ::
  "'v upsert_env \<Rightarrow> nat \<Rightarrow> 'v VectorRecord list \<Rightarrow> 'v world \<Rightarrow> 'v world \<times> thrown option" where
  "upsert_batches env k vectors w =
     (if vectors = [] then (w, None)
      else (let batch = take 100 vectors; w' = call (IndexUpsert batch) w in
            case upsert_fails env k of
              Some e \<Rightarrow> (w', Some e)
            | None \<Rightarrow> upsert_batches env (Suc k) (drop 100 vectors) w'))"
  by pat_completeness auto
termination
  by (relation "measure (\<lambda>(env, k, vectors, w). length vectors)") auto

declare upsert_batches.simps [simp del]

definition upsertDocumentChunks ::
  "'v upsert_env \<Rightarrow> string \<Rightarrow> Chunk list \<Rightarrow> 'v world \<Rightarrow> 'v world \<times> thrown option" where
  "upsertDocumentChunks env materialId chunks w =
     (if \<not> index_configured w then (w, None)
      else
        case deleteMany_fails env of
          Some e \<Rightarrow> (w, Some e)
        | None \<Rightarrow>
            (let w1 = w\<lparr>textChunks := filter (\<lambda>c. tc_materialId c \<noteq> materialId) (textChunks w)\<rparr> in
             case create_textChunks env materialId 0 chunks w1 of
               (w2, Some e) \<Rightarrow> (w2, Some e)
             | (w2, None) \<Rightarrow>
                 (let texts = map chunk_text chunks;
                      w3 = call (LocalEmbeddingsBatch texts) w2 in
                  case embeddings_batch env of
                    Inl e \<Rightarrow> (w3, Some e)
                  | Inr embeddings \<Rightarrow>
                      (let vectors = map_indexed (chunk_vector materialId embeddings) chunks
                       in upsert_batches env 0 vectors w3))))"

record Match =
  match_id :: string
  match_score :: "rat option"
  match_metadata :: "(string \<times> meta_value) list option"

record 'v search_env =
  embed_query :: "thrown + 'v"
  index_query :: "thrown + Match list"
  findMany_fails :: "thrown option"

definition match_pageNumber :: "Match \<Rightarrow> int" where
  \<comment> \<open>\<open>(match.metadata?.pageNumber as number) || 0\<close>; a value that is not a number is
      outside the declared type and is read as \<open>0\<close>\<close>
  "match_pageNumber m =
     (case match_metadata m of
        None \<Rightarrow> 0
      | Some md \<Rightarrow> (case map_of md ''pageNumber'' of Some (MetaNumber n) \<Rightarrow> n | _ \<Rightarrow> 0))"

definition searchRelevantChunks ::
  "'v search_env \<Rightarrow> string \<Rightarrow> string \<Rightarrow> nat \<Rightarrow> 'v world \<Rightarrow> 'v world \<times> (thrown + SearchResult list)" where
  "searchRelevantChunks env query materialId topK w =
     (if \<not> index_configured w then (w, Inr [])
      else
        (let w1 = call (LocalEmbedding query) w in
         case embed_query env of
           Inl e \<Rightarrow> (w1, Inl e)
         | Inr queryEmbedding \<Rightarrow>
             (let w2 = call (IndexQuery queryEmbedding topK materialId) w1 in
              case index_query env of
                Inl e \<Rightarrow> (w2, Inl e)
              | Inr matches \<Rightarrow>
                  (case findMany_fails env of
                     Some e \<Rightarrow> (w2, Inl e)
                   | None \<Rightarrow>
                       (let chunkIds = map match_id matches;
                            found = filter (\<lambda>c. tc_id c \<in> set chunkIds) (textChunks w2);
                            textMap = foldl (\<lambda>m c. Map_set m (tc_id c) c) [] found
                        in (w2, Inr (map (\<lambda>m.
                              \<lparr>sr_text = (case Map_get textMap (match_id m) of
                                            None \<Rightarrow> '''' | Some c \<Rightarrow> tc_text c),
                                sr_pageNumber = match_pageNumber m,
                                sr_score = (case match_score m of None \<Rightarrow> 0 | Some s \<Rightarrow> s)\<rparr>)
                              matches)))))))"

definition deleteMaterialVectors ::
  "thrown option \<Rightarrow> string \<Rightarrow> 'v world \<Rightarrow> 'v world \<times> thrown option" where
  \<comment> \<open>the first argument: how \<open>index.deleteMany\<close> settles\<close>
  "deleteMaterialVectors deleteMany_outcome materialId w =
     (if \<not> index_configured w then (w, None)
      else (call (IndexDeleteMany materialId) w, deleteMany_outcome))"

section \<open>Regular expressions of \<open>detectChapters\<close>\<close>

text \<open>
  The three chapter patterns are sequences of two kinds of pieces: one character of a
  class, and one or more characters of a class, greedy. \<open>match_pieces\<close> lists every way
  the pieces match a prefix of the string, in the order in which a backtracking matcher
  tries them (longest repetition first); each way gives the text taken by every piece.
  The first way is the match that \<open>RegExp\<close> reports.
\<close>

datatype piece = One "char \<Rightarrow> bool" | Many1 "char \<Rightarrow> bool"

fun match_pieces :: "piece list \<Rightarrow> string \<Rightarrow> string list list" where
  "match_pieces [] s = [[]]"
| "match_pieces (One P # ps) s =
     (case s of
        [] \<Rightarrow> []
      | c # cs \<Rightarrow> if P c then map ((#) [c]) (match_pieces ps cs) else [])"
| "match_pieces (Many1 P # ps) s =
     concat (map (\<lambda>k. map ((#) (take k s)) (match_pieces ps (drop k s)))
                 (rev [1 ..< Suc (length (takeWhile P s))]))"

definition exec_at :: "piece list \<Rightarrow> string \<Rightarrow> string list option" where
  "exec_at ps s = (case match_pieces ps s of [] \<Rightarrow> None | m # _ \<Rightarrow> Some m)"

lemma match_pieces_length:
  "m \<in> set (match_pieces ps s) \<Longrightarrow> length (concat m) \<le> length s"
proof (induction ps arbitrary: s m)
  case Nil
  then show ?case by simp
next
  case (Cons p ps)
  show ?case
  proof (cases p)
    case (One P)
    with Cons.prems obtain c cs m' where "s = c # cs" "m = [c] # m'" "m' \<in> set (match_pieces ps cs)"
      by (cases s) (auto split: if_splits)
    then show ?thesis using Cons.IH [of m' cs] by simp
  next
    case (Many1 P)
    with Cons.prems obtain k m' where k: "1 \<le> k" "k \<le> length (takeWhile P s)"
      and m: "m = take k s # m'" "m' \<in> set (match_pieces ps (drop k s))"
      by auto
    have "k \<le> length s" using k(2) length_takeWhile_le [of P s] by linarith
    then show ?thesis using Cons.IH [OF m(2)] m(1) by simp
  qed
qed

lemma exec_at_length: "exec_at ps s = Some m \<Longrightarrow> length (concat m) \<le> length s"
  by (rule match_pieces_length [of m ps s]) (auto simp: exec_at_def split: list.splits)

lemma exec_at_progress:
  assumes "exec_at ps s = Some m" and "xs \<in> set m" and "xs \<noteq> []"
  shows "length s - length (concat m) < length s"
proof -
  have le: "length (concat m) \<le> length s" using assms(1) by (rule exec_at_length)
  have "concat m \<noteq> []" using assms(2,3) by auto
  then have pos: "0 < length (concat m)" by simp
  from le pos show ?thesis by linarith
qed

record Match_result =
  m_index :: nat
  m_pieces :: "string list"

text \<open>
  \<open>text.matchAll(pattern)\<close> with the \<open>g\<close> flag: the leftmost match from the current
  position, then on from its end (from one character further after an empty match).
  \<open>matchAll_from ps s pos\<close> scans the rest \<open>s\<close> of the text, which starts at index
  \<open>pos\<close>.
\<close>

function matchAll_from :: "piece list \<Rightarrow> string \<Rightarrow> nat \<Rightarrow> Match_result list" where
  "matchAll_from ps s pos =
     (case exec_at ps s of
        Some m \<Rightarrow>
          (let n = length (concat m) in
           if n = 0
           then \<lparr>m_index = pos, m_pieces = m\<rparr> #
                  (case s of [] \<Rightarrow> [] | c # cs \<Rightarrow> matchAll_from ps cs (Suc pos))
           else \<lparr>m_index = pos, m_pieces = m\<rparr> # matchAll_from ps (drop n s) (pos + n))
      | None \<Rightarrow> (case s of [] \<Rightarrow> [] | c # cs \<Rightarrow> matchAll_from ps cs (Suc pos)))"
  by pat_completeness auto
termination
  by (relation "measure (\<lambda>(ps, s, pos). length s)") (auto dest: exec_at_progress)

declare matchAll_from.simps [simp del]

definition matchAll :: "piece list \<Rightarrow> string \<Rightarrow> Match_result list" where
  "matchAll ps text = matchAll_from ps text 0"

definition ignoreCase :: "char \<Rightarrow> char \<Rightarrow> bool" where
  \<comment> \<open>a letter of the pattern under the \<open>i\<close> flag\<close>
  "ignoreCase c x = (lowerChar x = lowerChar c)"

definition isColonOrSpace :: "char \<Rightarrow> bool" where
  \<comment> \<open>\<open>[:\s]\<close>\<close>
  "isColonOrSpace c = (c = CHR '':'' \<or> isWhiteSpace c)"

definition notNewline :: "char \<Rightarrow> bool" where
  \<comment> \<open>\<open>[^\n]\<close>\<close>
  "notNewline c = (c \<noteq> CHR 0x0A)"

record ChapterPattern =
  pieces :: "piece list"
  group1 :: "string list \<Rightarrow> string"
  group2 :: "string list \<Rightarrow> string"

definition pattern_Chapter :: ChapterPattern where
  \<comment> \<open>\<open>/Chapter\s+(\d+)[:\s]+([^\n]+)/gi\<close>\<close>
  "pattern_Chapter =
     \<lparr>pieces = map (\<lambda>c. One (ignoreCase c)) ''Chapter'' @
                [Many1 isWhiteSpace, Many1 isDigit, Many1 isColonOrSpace, Many1 notNewline],
      group1 = (\<lambda>m. m ! 8),
      group2 = (\<lambda>m. m ! 10)\<rparr>"

definition pattern_CHAPTER :: ChapterPattern where
  \<comment> \<open>\<open>/CHAPTER\s+(\d+)[:\s]+([^\n]+)/gi\<close>\<close>
  "pattern_CHAPTER =
     \<lparr>pieces = map (\<lambda>c. One (ignoreCase c)) ''CHAPTER'' @
                [Many1 isWhiteSpace, Many1 isDigit, Many1 isColonOrSpace, Many1 notNewline],
      group1 = (\<lambda>m. m ! 8),
      group2 = (\<lambda>m. m ! 10)\<rparr>"

definition pattern_numbered :: ChapterPattern where
  \<comment> \<open>\<open>/(\d+)\.\s+([A-Z][^\n]+)/g\<close>\<close>
  "pattern_numbered =
     \<lparr>pieces = [Many1 isDigit, One (\<lambda>c. c = CHR ''.''), Many1 isWhiteSpace,
                One isUpperAZ, Many1 notNewline],
      group1 = (\<lambda>m. m ! 0),
      group2 = (\<lambda>m. m ! 3 @ m ! 4)\<rparr>"

definition chapterPatterns :: "ChapterPattern list" where
  "chapterPatterns = [pattern_Chapter, pattern_CHAPTER, pattern_numbered]"

function significand_shift :: "nat \<Rightarrow> nat" where
  \<comment> \<open>the number of low bits that do not fit into the 53 bits of a double's significand\<close>
  "significand_shift n = (if n < 2 ^ 53 then 0 else Suc (significand_shift (n div 2)))"
  by pat_completeness auto
termination
  by (relation "measure id") auto

declare significand_shift.simps [simp del]

definition Number_of_nat :: "nat \<Rightarrow> number" where
  \<comment> \<open>the Number value of a natural number: the nearest double, with ties to the even
      significand, and \<open>Infinity\<close> from \<open>2^1024\<close> on. Below \<open>2^53\<close> it is the number
      itself.\<close>
  "Number_of_nat n =
     (let shift = significand_shift n;
          significand = n div 2 ^ shift;
          remainder = n mod 2 ^ shift;
          rounded = (if 2 * remainder > 2 ^ shift \<or>
                        (2 * remainder = 2 ^ shift \<and> odd significand)
                     then significand + 1 else significand)
      in if rounded * 2 ^ shift \<ge> 2 ^ 1024 then Infinity
         else Number (rounded * 2 ^ shift))"

definition parseInt :: "string \<Rightarrow> number" where
  \<comment> \<open>\<open>parseInt\<close> of a non-empty string of decimal digits (what \<open>(\d+)\<close> captures): the
      Number value of the integer that the digits denote (read exactly, as V8 does; the
      standard lets an implementation take the digits after the 20th as zeros)\<close>
  "parseInt ds = Number_of_nat (foldl (\<lambda>n c. 10 * n + (of_char c - 48)) 0 ds)"

section \<open>The file processor (\<open>lib/file-processor.ts\<close>)\<close>

record DetectedChapter =
  dc_number :: number
  dc_title :: string
  dc_startIndex :: nat
  dc_endIndex :: nat

text \<open>
  The body of \<open>matches.forEach((match, index) => ...)\<close>, run over the matches that are
  left, with the chapter numbers seen so far.
\<close>

fun collect_chapters ::
  "ChapterPattern \<Rightarrow> nat \<Rightarrow> number list \<Rightarrow> Match_result list \<Rightarrow> DetectedChapter list" where
  "collect_chapters p textLength seenNumbers [] = []"
| "collect_chapters p textLength seenNumbers (match # rest) =
     (let number = parseInt (group1 p (m_pieces match)) in
      if number \<in> set seenNumbers then collect_chapters p textLength seenNumbers rest
      else
        \<lparr>dc_number = number,
          dc_title = trim (group2 p (m_pieces match)),
          dc_startIndex = m_index match,
          dc_endIndex = (case rest of [] \<Rightarrow> textLength | next_match # _ \<Rightarrow> m_index next_match)\<rparr>
        # collect_chapters p textLength (number # seenNumbers) rest)"

fun first_matching :: "ChapterPattern list \<Rightarrow> string \<Rightarrow> (ChapterPattern \<times> Match_result list) option" where
  \<comment> \<open>the loop over the patterns: the first one with a match, and its matches\<close>
  "first_matching [] text = None"
| "first_matching (p # ps) text =
     (let ms = matchAll (pieces p) text in
      if ms \<noteq> [] then Some (p, ms) else first_matching ps text)"

definition detectChapters :: "string \<Rightarrow> DetectedChapter list" where
  "detectChapters text =
     (let chs = (case first_matching chapterPatterns text of
                   None \<Rightarrow> []
                 | Some (p, ms) \<Rightarrow> collect_chapters p (length text) [] ms)
      in if chs = []
         then [\<lparr>dc_number = Number 1, dc_title = ''Full Document'', dc_startIndex = 0,
                 dc_endIndex = length text\<rparr>]
         else chs)"

record RawDocument =
  raw_text :: string
  raw_numpages :: int
  raw_author :: "string option"










section \<open>Numbers in template strings\<close>

definition digit_char :: "nat \<Rightarrow> char" where
  "digit_char d = char_of (48 + d)"

function String_of_nat :: "nat \<Rightarrow> string" where
  "String_of_nat n =
     (if n < 10 then [digit_char n] else String_of_nat (n div 10) @ [digit_char (n mod 10)])"
  by pat_completeness auto
termination
  by (relation "measure id") auto

declare String_of_nat.simps [simp del]

definition String_of_int :: "int \<Rightarrow> string" where
  "String_of_int i = (if i < 0 then ''-'' @ String_of_nat (nat (- i)) else String_of_nat (nat i))"

section \<open>The ingestion pipeline (\<open>processDocumentAsync\<close> in \<open>app/api/materials/route.ts\<close>)\<close>

record RawConcept =
  rc_term :: string
  rc_definition :: string
  rc_category :: "string option"

record chapter_env =
  summary_brief :: "thrown + string"
  summary_standard :: "thrown + string"
  summary_detailed :: "thrown + string"
  questions :: "thrown + PracticeQuestion list"
  chapter_upsert_fails :: "thrown option"
  key_concepts :: "thrown + RawConcept list"
  concept_create_fails :: "nat \<Rightarrow> thrown option"

record 'v process_env =
  reader_outcome :: "thrown + RawDocument"
  update_pageCount_fails :: "thrown option"
  delete_chapters_fails :: "thrown option"
  delete_concepts_fails :: "thrown option"
  chapter_envs :: "nat \<Rightarrow> chapter_env"
  splitTextRecursive :: "thrown + string list"
  upsert_environment :: "'v upsert_env"
  whole_summary :: "thrown + string"
  update_ready_fails :: "thrown option"
  update_error_fails :: "thrown option"
  ConceptCategory_values :: "string list"

definition upperChar :: "char \<Rightarrow> string" where
  \<comment> \<open>the upper case of one character: \<open>U+00DF\<close> gives \<open>SS\<close>. The upper cases of
      \<open>U+00B5\<close> and \<open>U+00FF\<close> lie above \<open>U+00FF\<close>; the two are kept as they are, which
      makes no difference below, where the result is only compared with names of a
      Prisma enum (letters, digits and underscores)\<close>
  "upperChar c =
     (let n = (of_char c :: nat) in
      if (97 \<le> n \<and> n \<le> 122) \<or> (224 \<le> n \<and> n \<le> 254 \<and> n \<noteq> 247)
      then [char_of (n - 32)]
      else if n = 223 then ''SS'' else [c])"

definition toUpperCase :: "string \<Rightarrow> string" where
  "toUpperCase s = concat (map upperChar s)"

definition normalizeConceptCategory :: "string list \<Rightarrow> string option \<Rightarrow> string" where
  \<comment> \<open>the first argument: \<open>Object.values(ConceptCategory)\<close>, an enum of the Prisma schema\<close>
  "normalizeConceptCategory categories v =
     (case v of
        None \<Rightarrow> ''OTHER''
      | Some s \<Rightarrow>
          if s = [] then ''OTHER''
          else (let upperValue = toUpperCase s in
                if upperValue \<in> set categories then upperValue else ''OTHER''))"





fun create_concepts ::
  "chapter_env \<Rightarrow> string list \<Rightarrow> string \<Rightarrow> number \<Rightarrow> nat \<Rightarrow> RawConcept list \<Rightarrow> 'v world \<Rightarrow> 'v world" where
  \<comment> \<open>the loop over the extracted concepts; a failing \<open>create\<close> ends it (it is caught
      by the \<open>try\<close> around the loop)\<close>
  "create_concepts cenv categories materialId number i [] w = w"
| "create_concepts cenv categories materialId number i (concept # rest) w =
     (case concept_create_fails cenv i of
        Some e \<Rightarrow> w
      | None \<Rightarrow>
          create_concepts cenv categories materialId number (Suc i) rest
            (w\<lparr>concepts := concepts w @
               [\<lparr>co_materialId = materialId, co_term = rc_term concept,
                 co_definition = rc_definition concept,
                 co_category = normalizeConceptCategory categories (rc_category concept),
                 co_chapterNumber = number\<rparr>]\<rparr>))"

definition extract_concepts ::
  "chapter_env \<Rightarrow> string list \<Rightarrow> string \<Rightarrow> string \<Rightarrow> number \<Rightarrow> 'v world \<Rightarrow> 'v world" where
  "extract_concepts cenv categories materialId chapterText number w =
     (let w1 = call (ExtractKeyConcepts chapterText) w in
      case key_concepts cenv of
        Inl e \<Rightarrow> w1
      | Inr cs \<Rightarrow> create_concepts cenv categories materialId number 0 cs w1)"

definition slice :: "string \<Rightarrow> nat \<Rightarrow> nat \<Rightarrow> string" where
  \<comment> \<open>\<open>s.slice(start, end)\<close> for indices that are not negative\<close>
  "slice s start end' = take (end' - start) (drop start s)"






definition whole_document_summary :: "'v process_env \<Rightarrow> string \<Rightarrow> 'v world \<Rightarrow> 'v world \<times> string option" where
  \<comment> \<open>step 5, with its \<open>try\<close>; \<open>None\<close> is \<open>null\<close>\<close>
  "whole_document_summary env text w =
     (let w1 = call (GenerateSummary (slice text 0 10000) ''detailed'') w in
      (w1, (case whole_summary env of Inl e \<Rightarrow> None | Inr s \<Rightarrow> Some s)))"



definition status_of :: "'v world \<Rightarrow> string \<Rightarrow> ProcessingStatus option" where
  "status_of w materialId = map_option processingStatus (Map_get (materials w) materialId)"

section \<open>The chat endpoint (\<open>POST\<close> of \<open>app/api/chat/route.ts\<close>)\<close>

text \<open>
  The environment of a request says what \<open>request.json()\<close> gives, whether
  \<open>findUnique\<close> fails for an id that is a string (\<open>findUnique_fails\<close>), what it rejects
  with for an id that is not (\<open>findUnique_invalid\<close>), what the search does and what
  \<open>answerQuestion\<close> does. The fields of the request body are JSON values. Of \<open>materialId\<close> and \<open>question\<close> the
  handler needs to know whether the value is falsy, a string, or something else that is
  truthy (a number, \<open>true\<close>, an array, an object: none has a \<open>trim\<close> method, and Prisma
  rejects a query with such an id). Of \<open>conversationHistory\<close>: whether it is
  \<open>undefined\<close> or \<open>null\<close>, an array, or any other value (none has a \<open>map\<close> method). An
  element of the array that is \<open>null\<close> is \<open>None\<close>; any other is given by its \<open>role\<close> (a
  value that is not the string \<open>user\<close> behaves as any string other than it) and its
  \<open>content\<close>, which the handler passes on as it is and the model takes to be a string.
\<close>

datatype json_field = JsonFalsy | JsonString string | JsonOther

datatype json_history =
    HistoryNullish
  | HistoryArray "(string \<times> string) option list"
  | HistoryOther

record ChatBody =
  body_materialId :: json_field
  body_question :: json_field
  body_conversationHistory :: json_history

record ('v, 'c) chat_env =
  request_json :: "thrown + ChatBody"
  findUnique_fails :: "thrown option"
  findUnique_invalid :: thrown
  search_environment :: "'v search_env"
  answer_outcome :: "thrown + string \<times> 'c"

datatype 'c chat_response =
    JsonError nat string
  | JsonAnswer string 'c "int list"

definition optional_includes :: "message_value \<Rightarrow> string \<Rightarrow> thrown + bool" where
  \<comment> \<open>\<open>message?.includes(sub) ?? false\<close>, as a truth value\<close>
  "optional_includes m sub =
     (case m of
        MessageUndefined \<Rightarrow> Inr False
      | MessageNull \<Rightarrow> Inr False
      | _ \<Rightarrow> message_includes m sub)"

definition isRateLimitError :: "thrown \<Rightarrow> thrown + bool" where
  \<comment> \<open>the value, or \<open>Inl\<close> what evaluating it throws\<close>
  "isRateLimitError error =
     (case error of
        Primitive \<Rightarrow> Inr False
      | _ \<Rightarrow>
          if thrown_status error = Some 429 then Inr True
          else case optional_includes (thrown_message error) ''429'' of
                 Inl e \<Rightarrow> Inl e
               | Inr found \<Rightarrow>
                   if found then Inr True
                   else optional_includes (thrown_message error) ''Too Many Requests'')"

fun join :: "string \<Rightarrow> string list \<Rightarrow> string" where
  \<comment> \<open>\<open>xs.join(sep)\<close>\<close>
  "join sep [] = []"
| "join sep [x] = x"
| "join sep (x # y # ys) = x @ sep @ join sep (y # ys)"

definition chat_context :: "SearchResult list \<Rightarrow> string" where
  "chat_context relevantChunks =
     join [CHR 0x0A, CHR 0x0A]
       (map (\<lambda>chunk. ''[Page '' @ String_of_int (sr_pageNumber chunk) @ ''] '' @ sr_text chunk)
            relevantChunks)"

definition formattedHistory :: "json_history \<Rightarrow> thrown + (string \<times> string) list" where
  \<comment> \<open>\<open>conversationHistory?.map(msg => ...) || []\<close>, or \<open>Inl\<close> the \<open>TypeError\<close> it throws\<close>
  "formattedHistory h =
     (case h of
        HistoryNullish \<Rightarrow> Inr []
      | HistoryOther \<Rightarrow> Inl (not_a_function ''conversationHistory.map'')
      | HistoryArray msgs \<Rightarrow>
          if None \<in> set msgs
          then Inl (new_Error ''Cannot read properties of null (reading role)'')
          else Inr (map (\<lambda>msg. case the msg of (role, content) \<Rightarrow>
                           (if role = ''user'' then ''user'' else ''assistant'', content))
                        msgs))"

definition chat_search ::
  "'v search_env \<Rightarrow> string \<Rightarrow> string \<Rightarrow> 'v world \<Rightarrow> 'v world \<times> SearchResult list" where
  \<comment> \<open>the inner \<open>try\<close>: \<open>relevantChunks\<close> stays \<open>[]\<close> when the search throws\<close>
  "chat_search senv question materialId w =
     (case searchRelevantChunks senv question materialId 5 w of
        (w1, Inl e) \<Rightarrow> (w1, [])
      | (w1, Inr found) \<Rightarrow> (w1, found))"

definition chat_answer ::
  "('v, 'c) chat_env \<Rightarrow> string \<Rightarrow> string \<Rightarrow> json_history \<Rightarrow> 'v world
   \<Rightarrow> 'v world \<times> (thrown + 'c chat_response)" where
  \<comment> \<open>from the search on: retrieval, context, history, answer generation, response\<close>
  "chat_answer env question materialId history w =
     (case chat_search (search_environment env) question materialId w of
        (w1, relevantChunks) \<Rightarrow>
          (let context = chat_context relevantChunks in
           case formattedHistory history of
             Inl e \<Rightarrow> (w1, Inl e)
           | Inr formatted \<Rightarrow>
               (let w2 = call (AnswerQuestion question context formatted True) w1
                in case answer_outcome env of
                     Inl e \<Rightarrow> (w2, Inl e)
                   | Inr (answer, citations) \<Rightarrow>
                       (w2, Inr (JsonAnswer answer citations
                                   (map sr_pageNumber relevantChunks))))))"

definition json_falsy :: "json_field \<Rightarrow> bool" where
  \<comment> \<open>\<open>!v\<close>\<close>
  "json_falsy v = (v = JsonFalsy \<or> v = JsonString [])"

definition chat_try ::
  "('v, 'c) chat_env \<Rightarrow> 'v world \<Rightarrow> 'v world \<times> (thrown + 'c chat_response)" where
  \<comment> \<open>the body of the outer \<open>try\<close>, after the check of \<open>DATABASE_URL\<close>; \<open>Inl e\<close> is the
      exception that reaches its \<open>catch\<close>\<close>
  "chat_try env w =
     (case request_json env of
        Inl e \<Rightarrow> (w, Inl e)
      | Inr body \<Rightarrow>
          if json_falsy (body_materialId body) \<or> json_falsy (body_question body)
          then (w, Inr (JsonError 400 ''Missing required fields''))
          else
            (case body_question body of
               JsonString question \<Rightarrow>
                 if length (trim question) = 0
                 then (w, Inr (JsonError 400 ''Question cannot be empty''))
                 else if length question > 1000
                 then (w, Inr (JsonError 400
                         ''Question is too long. Please keep it under 1000 characters.''))
                 else
                   (case body_materialId body of
                      JsonString materialId \<Rightarrow>
                        (case findUnique_fails env of
                           Some e \<Rightarrow> (w, Inl e)
                         | None \<Rightarrow>
                             (case Map_get (materials w) materialId of
                                None \<Rightarrow> (w, Inr (JsonError 404 ''Material not found''))
                              | Some material \<Rightarrow>
                                  if processingStatus material = PROCESSING
                                  then (w, Inr (JsonError 400
                                          ''Material is still being processed''))
                                  else chat_answer env question materialId
                                         (body_conversationHistory body) w))
                    | _ \<Rightarrow> (w, Inl (findUnique_invalid env)))
             | _ \<Rightarrow> (w, Inl (not_a_function ''question.trim''))))"

definition chat_POST ::
  "('v, 'c) chat_env \<Rightarrow> 'v world \<Rightarrow> 'v world \<times> (thrown + 'c chat_response)" where
  \<comment> \<open>of a JSON error response the model keeps the status and the \<open>error\<close> field; \<open>Inl e\<close>:
      the handler itself throws \<open>e\<close> (from inside its \<open>catch\<close>)\<close>
  "chat_POST env w =
     (if \<not> database_url_set w then (w, Inr (JsonError 503 ''Database not configured''))
      else
        case chat_try env w of
          (w', Inr response) \<Rightarrow> (w', Inr response)
        | (w', Inl error) \<Rightarrow>
            (case isRateLimitError error of
               Inl e \<Rightarrow> (w', Inl e)
             | Inr limited \<Rightarrow>
                 (w', Inr (if limited then JsonError 429 ''Rate limit exceeded''
                           else JsonError 500 ''Failed to process question''))))"

section \<open>The upload scripts\<close>














definition upserted :: "'v world \<Rightarrow> 'v VectorRecord list" where
  \<comment> \<open>every record passed to \<open>index.upsert\<close> so far, in order\<close>
  "upserted w = concat (map (\<lambda>c. case c of IndexUpsert batch \<Rightarrow> batch | _ \<Rightarrow> []) (extern_calls w))"


section \<open>Worlds and environments to run the code on\<close>

definition new_world :: "bool \<Rightarrow> (string \<times> Material) list \<Rightarrow> nat world" where
  \<comment> \<open>a server with its database configured, the given materials and nothing else\<close>
  "new_world idx ms =
     \<lparr>index_configured = idx, database_url_set = True, materials = ms, chapters = [],
      concepts = [], textChunks = [], searchCache_state = searchCache, extern_calls = []\<rparr>"

definition material_in :: "ProcessingStatus \<Rightarrow> Material" where
  "material_in st = \<lparr>processingStatus = st, pageCount = 0, author = None, wholeSummary = None\<rparr>"

definition failure :: thrown where
  "failure = new_Error ''503 Service Unavailable''"

definition all_fail_upsert_env :: "nat upsert_env" where
  "all_fail_upsert_env =
     \<lparr>deleteMany_fails = Some failure, create_fails = (\<lambda>i. Some failure),
      embeddings_batch = Inl failure, upsert_fails = (\<lambda>k. Some failure)\<rparr>"


definition all_fail_search_env :: "nat search_env" where
  "all_fail_search_env =
     \<lparr>embed_query = Inl failure, index_query = Inl failure, findMany_fails = Some failure\<rparr>"



definition plain_text :: string where
  \<comment> \<open>a text without chapter headings\<close>
  "plain_text = ''No headings here''"

definition repeated_text :: string where
  \<comment> \<open>a text whose second heading repeats the number of the first\<close>
  "repeated_text =
     ''Chapter 1: A'' @ [CHR 0x0A] @ ''chapter 1: B'' @ [CHR 0x0A] @ ''Chapter 2: C''"


definition partial_chapter_env :: chapter_env where
  \<comment> \<open>the brief summary is generated, the standard one fails\<close>
  "partial_chapter_env =
     \<lparr>summary_brief = Inr ''A brief summary'', summary_standard = Inl failure,
      summary_detailed = Inr ''A detailed summary'',
      questions = Inl failure, chapter_upsert_fails = None, key_concepts = Inl failure,
      concept_create_fails = (\<lambda>i. None)\<rparr>"




definition example_body :: ChatBody where
  "example_body =
     \<lparr>body_materialId = JsonString ''m1'', body_question = JsonString ''What is a cell?'',
      body_conversationHistory = HistoryNullish\<rparr>"

definition example_chat_env :: "(nat, string list) chat_env" where
  \<comment> \<open>the search fails; the language model answers\<close>
  "example_chat_env =
     \<lparr>request_json = Inr example_body, findUnique_fails = None,
      findUnique_invalid = failure,
      search_environment = all_fail_search_env,
      answer_outcome = Inr (''The basic unit of life.'', [])\<rparr>"




chapter \<open>Properties\<close>

section \<open>Map objects\<close>

lemma Map_set_keys:
  "map fst (Map_set m k v) = (if k \<in> set (map fst m) then map fst m else map fst m @ [k])"
  by (induction m) (fastforce simp: image_iff)+

lemma length_Map_set:
  "length (Map_set m k v) = (if k \<in> set (map fst m) then length m else Suc (length m))"
  by (induction m) (fastforce simp: image_iff)+

lemma distinct_Map_set: "distinct (map fst m) \<Longrightarrow> distinct (map fst (Map_set m k v))"
  by (simp add: Map_set_keys)


lemma Map_delete_keys: "map fst (Map_delete m k) = filter (\<lambda>x. x \<noteq> k) (map fst m)"
  by (induction m) (auto simp: Map_delete_def)

lemma distinct_Map_delete: "distinct (map fst m) \<Longrightarrow> distinct (map fst (Map_delete m k))"
  by (simp add: Map_delete_keys)

lemma length_Map_delete: "length (Map_delete m k) \<le> length m"
  by (simp add: Map_delete_def)


lemma Map_delete_first:
  "distinct (map fst ((k, e) # rest)) \<Longrightarrow> Map_delete ((k, e) # rest) k = rest"
proof -
  assume d: "distinct (map fst ((k, e) # rest))"
  then have "\<forall>p \<in> set rest. fst p \<noteq> k" by auto
  then have "filter (\<lambda>p. fst p \<noteq> k) rest = rest" by (simp add: filter_id_conv)
  then show ?thesis by (simp add: Map_delete_def)
qed

lemma cache_set_full:
  assumes "cache c = (k, e) # rest" and "distinct (map fst (cache c))"
    and "maxSize c \<le> Map_size (cache c)"
  shows "cache (cache_set c q m rs now) =
         Map_set rest (getCacheKey q m) \<lparr>results = rs, timestamp = now\<rparr>"
proof -
  have "Map_delete (cache c) k = rest"
    using assms(1,2) Map_delete_first [of k e rest] by simp
  then show ?thesis
    using assms(1,3) by (simp add: cache_set_def Map_first_key_def Let_def)
qed

lemma cache_set_below:
  assumes "\<not> maxSize c \<le> Map_size (cache c)"
  shows "cache (cache_set c q m rs now) =
         Map_set (cache c) (getCacheKey q m) \<lparr>results = rs, timestamp = now\<rparr>"
  using assms by (simp add: cache_set_def Let_def)

lemma cache_set_empty:
  assumes "cache c = []"
  shows "cache (cache_set c q m rs now) = [(getCacheKey q m, \<lparr>results = rs, timestamp = now\<rparr>)]"
  using assms by (simp add: cache_set_def Let_def Map_first_key_def)

lemma cache_set_fields [simp]:
  "maxSize (cache_set c q m rs now) = maxSize c" "ttl (cache_set c q m rs now) = ttl c"
  by (simp_all add: cache_set_def Let_def)

lemma cache_get_fields [simp]:
  "maxSize (snd (cache_get c q m now)) = maxSize c" "ttl (snd (cache_get c q m now)) = ttl c"
  by (simp_all add: cache_get_def Let_def split: option.splits)

lemma cache_apply_fields [simp]:
  "maxSize (cache_apply c x) = maxSize c" "ttl (cache_apply c x) = ttl c"
  by (cases x; simp add: cache_clear_def)+

lemma cache_run_fields [simp]:
  "maxSize (cache_run c xs) = maxSize c" "ttl (cache_run c xs) = ttl c"
  by (induction xs arbitrary: c; simp)+

lemma cache_set_inv:
  assumes "cache_inv c" and "1 \<le> maxSize c"
  shows "cache_inv (cache_set c q m rs now)"
proof (cases "maxSize c \<le> Map_size (cache c)")
  case True
  with assms obtain k e rest where c: "cache c = (k, e) # rest"
    by (cases "cache c") (auto simp: Map_size_def)
  from assms(1) have d: "distinct (map fst (cache c))" by (simp add: cache_inv_def)
  have eq: "cache (cache_set c q m rs now) =
         Map_set rest (getCacheKey q m) \<lparr>results = rs, timestamp = now\<rparr>"
    by (rule cache_set_full [OF c d True])
  have "distinct (map fst rest)" using d c by simp
  moreover have "int (length rest) + 1 \<le> maxSize c"
    using assms(1) c by (simp add: cache_inv_def Map_size_def)
  ultimately show ?thesis
    unfolding cache_inv_def eq Map_size_def
    by (simp add: distinct_Map_set length_Map_set)
next
  case False
  then show ?thesis
    using assms(1) unfolding cache_inv_def
    by (simp add: cache_set_below Map_size_def distinct_Map_set length_Map_set)
qed

lemma cache_get_inv:
  assumes "cache_inv c"
  shows "cache_inv (snd (cache_get c q m now))"
proof -
  have "int (length (Map_delete (cache c) k)) \<le> maxSize c" for k
    using assms length_Map_delete [of "cache c" k] by (simp add: cache_inv_def Map_size_def)
  then show ?thesis
    using assms
    by (simp add: cache_get_def Let_def cache_inv_def Map_size_def distinct_Map_delete
        split: option.splits)
qed

lemma cache_apply_inv:
  assumes "cache_inv c" and "1 \<le> maxSize c"
  shows "cache_inv (cache_apply c x)"
proof (cases x)
  case (CallGet q m now)
  then show ?thesis using assms cache_get_inv by simp
next
  case (CallSet q m rs now)
  then show ?thesis using assms cache_set_inv by simp
next
  case CallClear
  then show ?thesis using assms by (simp add: cache_clear_def cache_inv_def Map_size_def)
qed

lemma cache_run_inv:
  "cache_inv c \<Longrightarrow> 1 \<le> maxSize c \<Longrightarrow> cache_inv (cache_run c xs)"
  by (induction xs arbitrary: c) (simp_all add: cache_apply_inv)

lemma SearchCache_new_inv: "0 \<le> M \<Longrightarrow> cache_inv (SearchCache_new M T)"
  by (simp add: cache_inv_def SearchCache_new_def Map_size_def)

section \<open>Search cache: capacity\<close>

lemma cache_run_append: "cache_run c (xs @ ys) = cache_run (cache_run c xs) ys"
  by (induction xs arbitrary: c) simp_all

lemma set_key_simp: "set_key (q, m, rs, now) = getCacheKey q m"
  by (simp add: set_key_def)

lemma set_call_simp: "set_call (q, m, rs, now) = CallSet q m rs now"
  by (simp add: set_call_def)

lemma cache_inv_length: "cache_inv c \<Longrightarrow> length (cache c) \<le> nat (maxSize c)"
  unfolding cache_inv_def Map_size_def by linarith

lemma cache_set_keys_fifo:
  assumes inv: "cache_inv c" and M: "1 \<le> maxSize c"
    and new: "getCacheKey q m \<notin> set (map fst (cache c))"
  shows "map fst (cache (cache_set c q m rs now)) =
         drop (Suc (length (cache c)) - nat (maxSize c)) (map fst (cache c) @ [getCacheKey q m])"
proof (cases "maxSize c \<le> Map_size (cache c)")
  case True
  with M obtain k e rest where c: "cache c = (k, e) # rest"
    by (cases "cache c") (auto simp: Map_size_def)
  from inv have d: "distinct (map fst (cache c))" by (simp add: cache_inv_def)
  from inv True have len: "int (length (cache c)) = maxSize c"
    by (simp add: cache_inv_def Map_size_def)
  have eq: "cache (cache_set c q m rs now) =
         Map_set rest (getCacheKey q m) \<lparr>results = rs, timestamp = now\<rparr>"
    by (rule cache_set_full [OF c d True])
  have "getCacheKey q m \<notin> set (map fst rest)" using new c by simp
  then have "map fst (cache (cache_set c q m rs now)) = map fst rest @ [getCacheKey q m]"
    unfolding eq by (simp add: Map_set_keys)
  moreover have "Suc (length (cache c)) - nat (maxSize c) = 1" using len by linarith
  ultimately show ?thesis using c by simp
next
  case False
  then have "Suc (length (cache c)) - nat (maxSize c) = 0"
    by (simp add: Map_size_def)
  then show ?thesis
    using new False by (simp add: cache_set_below Map_set_keys)
qed

lemma cache_run_sets_keys:
  assumes "cache_inv c" and "1 \<le> maxSize c"
    and "distinct (map fst (cache c) @ map set_key xs)"
  shows "map fst (cache (cache_run c (map set_call xs))) =
         drop (length (cache c) + length xs - nat (maxSize c)) (map fst (cache c) @ map set_key xs)"
  using assms
proof (induction xs arbitrary: c)
  case Nil
  then have "length (cache c) \<le> nat (maxSize c)"
    by (simp add: cache_inv_length)
  then show ?case by simp
next
  case (Cons x xs)
  obtain q m rs now where x: "x = (q, m, rs, now)" by (cases x) auto
  let ?c' = "cache_set c q m rs now"
  let ?k = "getCacheKey q m"
  have new: "?k \<notin> set (map fst (cache c))"
    using Cons.prems(3) x by (auto simp: set_key_simp)
  have keys: "map fst (cache ?c') =
      drop (Suc (length (cache c)) - nat (maxSize c)) (map fst (cache c) @ [?k])"
    by (rule cache_set_keys_fifo [OF Cons.prems(1,2) new])
  have inv': "cache_inv ?c'" by (rule cache_set_inv [OF Cons.prems(1,2)])
  have M': "1 \<le> maxSize ?c'" using Cons.prems(2) by simp
  have len_c: "length (cache c) \<le> nat (maxSize c)"
    using Cons.prems(1) by (rule cache_inv_length)
  have len': "length (cache ?c') = Suc (length (cache c)) - (Suc (length (cache c)) - nat (maxSize c))"
  proof -
    have "length (map fst (cache ?c')) =
        length (drop (Suc (length (cache c)) - nat (maxSize c)) (map fst (cache c) @ [?k]))"
      by (simp only: keys)
    then show ?thesis by (simp only: length_map length_drop length_append list.size)
  qed
  have d': "distinct (map fst (cache ?c') @ map set_key xs)"
  proof -
    have "distinct ((map fst (cache c) @ [?k]) @ map set_key xs)"
      using Cons.prems(3) x by (simp add: set_key_simp)
    then have "distinct (drop (Suc (length (cache c)) - nat (maxSize c)) ((map fst (cache c) @ [?k]) @ map set_key xs))"
      by (rule distinct_drop)
    moreover have "Suc (length (cache c)) - nat (maxSize c) \<le> length (map fst (cache c) @ [?k])"
      by simp
    ultimately show ?thesis unfolding keys by (simp del: append_assoc)
  qed
  have "map fst (cache (cache_run ?c' (map set_call xs))) =
      drop (length (cache ?c') + length xs - nat (maxSize ?c')) (map fst (cache ?c') @ map set_key xs)"
    by (rule Cons.IH [OF inv' M' d'])
  also have "\<dots> = drop (length (cache c) + length (x # xs) - nat (maxSize c))
      (map fst (cache c) @ map set_key (x # xs))"
  proof (cases "Suc (length (cache c)) \<le> nat (maxSize c)")
    case True
    then have "Suc (length (cache c)) - nat (maxSize c) = 0" by simp
    with keys len' show ?thesis using x by (simp add: set_key_simp)
  next
    case False
    with len_c have full: "length (cache c) = nat (maxSize c)" by simp
    then have one: "Suc (length (cache c)) - nat (maxSize c) = 1"
      using Cons.prems(2) by simp
    from full Cons.prems(2) obtain k ks where ks: "map fst (cache c) = k # ks"
      by (cases "map fst (cache c)") auto
    have "length (cache ?c') = length (cache c)" using len' one full Cons.prems(2) by simp
    then show ?thesis using keys one ks x full by (simp add: set_key_simp)
  qed
  finally show ?case using x by (simp add: set_call_simp)
qed

lemma cache_run_bound:
  assumes "1 \<le> M"
  shows "Map_size (cache (cache_run (SearchCache_new M T) calls)) \<le> M"
proof -
  have "cache_inv (SearchCache_new M T)" using assms by (simp add: SearchCache_new_inv)
  moreover have "1 \<le> maxSize (SearchCache_new M T)" using assms by (simp add: SearchCache_new_def)
  ultimately have "cache_inv (cache_run (SearchCache_new M T) calls)" by (rule cache_run_inv)
  then show ?thesis by (simp add: cache_inv_def SearchCache_new_def)
qed

lemma cache_run_full_nonempty:
  assumes "1 \<le> M" and "c = cache_run (SearchCache_new M T) calls"
    and "maxSize c \<le> Map_size (cache c)"
  shows "\<exists>k e rest. cache c = (k, e) # rest \<and> k \<notin> fst ` set rest \<and>
           (\<forall>q m rs now. cache (cache_set c q m rs now) =
              Map_set rest (getCacheKey q m) \<lparr>results = rs, timestamp = now\<rparr>)"
proof -
  have "cache_inv (SearchCache_new M T)" using assms(1) by (simp add: SearchCache_new_inv)
  moreover have "1 \<le> maxSize (SearchCache_new M T)" using assms(1) by (simp add: SearchCache_new_def)
  ultimately have inv: "cache_inv c" unfolding assms(2) by (rule cache_run_inv)
  have M: "maxSize c = M" unfolding assms(2) by (simp add: SearchCache_new_def)
  from assms(1,3) M obtain p rest where c: "cache c = p # rest"
    by (cases "cache c") (auto simp: Map_size_def)
  obtain k e where p: "p = (k, e)" by (cases p)
  from inv have d: "distinct (map fst (cache c))" by (simp add: cache_inv_def)
  have "k \<notin> fst ` set rest" using d c p by simp
  moreover have "cache (cache_set c q m rs now) =
              Map_set rest (getCacheKey q m) \<lparr>results = rs, timestamp = now\<rparr>" for q m rs now
    using cache_set_full [OF _ d assms(3)] c p by simp
  ultimately show ?thesis using c p by blast
qed

lemma cache_run_overflow_by_one:
  fixes xs :: "(string \<times> string \<times> 'r list \<times> int) list"
  assumes "1 \<le> M" and "distinct (map set_key xs)" and "int (length xs) = M + 1"
  shows "map fst (cache (cache_run (SearchCache_new M T) (map set_call xs))) = tl (map set_key xs)"
proof -
  let ?c = "SearchCache_new M T :: 'r SearchCache"
  have inv: "cache_inv ?c" using assms(1) by (simp add: SearchCache_new_inv)
  have M: "1 \<le> maxSize ?c" using assms(1) by (simp add: SearchCache_new_def)
  have d: "distinct (map fst (cache ?c) @ map set_key xs)"
    using assms(2) by (simp add: SearchCache_new_def)
  have "length (cache ?c) + length xs - nat (maxSize ?c) = 1"
    using assms(1,3) by (simp add: SearchCache_new_def)
  with cache_run_sets_keys [OF inv M d] show ?thesis
    by (simp add: SearchCache_new_def drop_Suc)
qed

text \<open>
  Claim C2. For every cache built with a capacity \<open>maxSize \<ge> 1\<close> (the one cache of the
  program, \<open>searchCache\<close>, has capacity 100) and every sequence of calls (\<open>set\<close>, \<open>get\<close>,
  \<open>clear\<close>) on it: the cache never holds more than \<open>maxSize\<close> entries; a \<open>set\<close> performed
  while it holds at least \<open>maxSize\<close> entries first removes the single oldest-inserted
  entry (the head of the insertion order) and then inserts into what is left; and
  inserting \<open>maxSize + 1\<close> distinct keys into the new cache leaves exactly \<open>maxSize\<close>
  entries, the keys after the first in their order, with the first-inserted key absent.
\<close>

theorem searchCache_fifo_under_capacity:
  fixes M T :: int
  assumes "1 \<le> M"
  shows "(\<forall>calls :: 'r cache_call list.
            Map_size (cache (cache_run (SearchCache_new M T) calls)) \<le> M) \<and>
         (\<forall>(calls :: 'r cache_call list) c. c = cache_run (SearchCache_new M T) calls \<and>
            maxSize c \<le> Map_size (cache c) \<longrightarrow>
            (\<exists>k e rest. cache c = (k, e) # rest \<and> k \<notin> fst ` set rest \<and>
               (\<forall>q m rs now. cache (cache_set c q m rs now) =
                  Map_set rest (getCacheKey q m) \<lparr>results = rs, timestamp = now\<rparr>))) \<and>
         (\<forall>xs :: (string \<times> string \<times> 'r list \<times> int) list.
            distinct (map set_key xs) \<and> int (length xs) = M + 1 \<longrightarrow>
            (let c = cache_run (SearchCache_new M T) (map set_call xs) in
               map fst (cache c) = tl (map set_key xs) \<and>
               Map_size (cache c) = M \<and>
               Map_get (cache c) (set_key (hd xs)) = None))"
proof (intro conjI allI impI)
  fix calls :: "'r cache_call list"
  show "Map_size (cache (cache_run (SearchCache_new M T) calls)) \<le> M"
    by (rule cache_run_bound [OF assms])
next
  fix calls :: "'r cache_call list" and c
  assume "c = cache_run (SearchCache_new M T) calls \<and> maxSize c \<le> Map_size (cache c)"
  then show "\<exists>k e rest. cache c = (k, e) # rest \<and> k \<notin> fst ` set rest \<and>
               (\<forall>q m rs now. cache (cache_set c q m rs now) =
                  Map_set rest (getCacheKey q m) \<lparr>results = rs, timestamp = now\<rparr>)"
    using cache_run_full_nonempty [OF assms] by blast
next
  fix xs :: "(string \<times> string \<times> 'r list \<times> int) list"
  assume h: "distinct (map set_key xs) \<and> int (length xs) = M + 1"
  let ?c = "cache_run (SearchCache_new M T) (map set_call xs)"
  have keys: "map fst (cache ?c) = tl (map set_key xs)"
    using cache_run_overflow_by_one [OF assms] h by blast
  have "length (map fst (cache ?c)) = length (tl (map set_key xs))"
    by (simp only: keys)
  then have "length (cache ?c) = length xs - 1" by simp
  then have size: "Map_size (cache ?c) = M" using h assms unfolding Map_size_def by linarith
  from h assms obtain x rest where xs: "xs = x # rest" by (cases xs) auto
  have "set_key x \<notin> set (map fst (cache ?c))"
    unfolding keys using h xs by simp
  then have "Map_get (cache ?c) (set_key (hd xs)) = None"
    using xs by (simp add: Map_get_def map_of_eq_None_iff)
  with keys size show "let c = ?c in
               map fst (cache c) = tl (map set_key xs) \<and>
               Map_size (cache c) = M \<and>
               Map_get (cache c) (set_key (hd xs)) = None"
    by (simp add: Let_def)
qed

lemma getCacheKey_examples:
  "getCacheKey ''a'' ''m'' = ''m:a''" "getCacheKey ''b'' ''m'' = ''m:b''"
  "getCacheKey ''c'' ''m'' = ''m:c''"
  by (simp_all add: getCacheKey_def substring0_def toLowerCase_def trim_def lowerChar_def
      isUpperAZ_def isUpperLatin1_def isWhiteSpace_def Let_def)

theorem searchCache_fifo_under_capacity_witness:
  "(1::int) \<le> 2 \<and>
   map fst (cache (cache_run (SearchCache_new 2 5 :: nat SearchCache)
     (map set_call [(''a'', ''m'', [1], 10), (''b'', ''m'', [2], 20), (''c'', ''m'', [3], 30)])))
   = [''m:b'', ''m:c''] \<and>
   Map_size (cache (cache_run (SearchCache_new 2 5 :: nat SearchCache)
     [CallSet ''a'' ''m'' [1] 10, CallGet ''a'' ''m'' 20, CallSet ''b'' ''m'' [2] 30])) \<le> 2 \<and>
   Map_size (cache (cache_run searchCache
     [CallSet ''a'' ''m'' [] 10, CallGet ''a'' ''m'' 20, CallSet ''b'' ''m'' [] 30])) \<le> 100"
proof -
  let ?xs = "[(''a'', ''m'', [1], 10), (''b'', ''m'', [2], 20), (''c'', ''m'', [3], 30)]
     :: (string \<times> string \<times> nat list \<times> int) list"
  have one: "(1::int) \<le> 2" by simp
  have d: "distinct (map set_key ?xs) \<and> int (length ?xs) = 2 + 1"
    by (simp add: set_key_simp getCacheKey_examples)
  have p1: "\<forall>calls :: nat cache_call list.
      Map_size (cache (cache_run (SearchCache_new 2 5) calls)) \<le> 2"
    using searchCache_fifo_under_capacity [OF one, of 5] by (rule conjunct1)
  have p3: "\<forall>xs :: (string \<times> string \<times> nat list \<times> int) list.
            distinct (map set_key xs) \<and> int (length xs) = 2 + 1 \<longrightarrow>
            (let c = cache_run (SearchCache_new 2 5) (map set_call xs) in
               map fst (cache c) = tl (map set_key xs) \<and>
               Map_size (cache c) = 2 \<and>
               Map_get (cache c) (set_key (hd xs)) = None)"
    using searchCache_fifo_under_capacity [OF one, of 5] by (rule conjunct2 [THEN conjunct2])
  from p3 [rule_format, OF d]
  have "map fst (cache (cache_run (SearchCache_new 2 5) (map set_call ?xs))) = tl (map set_key ?xs)"
    by (simp only: Let_def)
  moreover have "tl (map set_key ?xs) = [''m:b'', ''m:c'']"
    by (simp add: set_key_simp getCacheKey_examples)
  ultimately have a: "map fst (cache (cache_run (SearchCache_new 2 5 :: nat SearchCache)
      (map set_call ?xs))) = [''m:b'', ''m:c'']"
    by (rule trans)
  have b: "Map_size (cache (cache_run (SearchCache_new 2 5 :: nat SearchCache)
     [CallSet ''a'' ''m'' [1] 10, CallGet ''a'' ''m'' 20, CallSet ''b'' ''m'' [2] 30])) \<le> 2"
    by (rule p1 [rule_format])
  have hundred: "(1::int) \<le> 100" by simp
  have "\<forall>calls :: SearchResult cache_call list.
      Map_size (cache (cache_run (SearchCache_new 100 5) calls)) \<le> 100"
    using searchCache_fifo_under_capacity [OF hundred, of 5] by (rule conjunct1)
  then have c: "Map_size (cache (cache_run searchCache
     [CallSet ''a'' ''m'' [] 10, CallGet ''a'' ''m'' 20, CallSet ''b'' ''m'' [] 30])) \<le> 100"
    unfolding searchCache_def by (rule allE)
  from one a b c show ?thesis by (intro conjI)
qed

section \<open>Search cache: expiry\<close>











section \<open>Retry policy\<close>

lemma retry_loop_stop:
  "\<not> int a \<le> M \<Longrightarrow> retry_loop op M a l =
     \<lparr>outcome = Inl (throw_lastError l), invocations = a, delays = []\<rparr>"
  by (simp add: retry_loop.simps)

lemma retry_loop_value:
  "int a \<le> M \<Longrightarrow> op a = Inr v \<Longrightarrow> retry_loop op M a l =
     \<lparr>outcome = Inr v, invocations = Suc a, delays = []\<rparr>"
  by (simp add: retry_loop.simps)

lemma retry_loop_escape:
  "int a \<le> M \<Longrightarrow> op a = Inl e \<Longrightarrow> retryable e = Inl x \<Longrightarrow> retry_loop op M a l =
     \<lparr>outcome = Inl x, invocations = Suc a, delays = []\<rparr>"
  by (subst retry_loop.simps) (simp add: Let_def)

lemma retry_loop_fail:
  "int a \<le> M \<Longrightarrow> op a = Inl e \<Longrightarrow> retryable e = Inr b \<Longrightarrow> \<not> b \<or> int a = M \<Longrightarrow>
   retry_loop op M a l =
     \<lparr>outcome = Inl (throw_lastError (record_error l e)), invocations = Suc a, delays = []\<rparr>"
  by (subst retry_loop.simps) (auto simp: record_error_def Let_def)

lemma retry_loop_retry:
  "int a \<le> M \<Longrightarrow> op a = Inl e \<Longrightarrow> retryable e = Inr True \<Longrightarrow> int a \<noteq> M \<Longrightarrow>
   retry_loop op M a l =
     (retry_loop op M (Suc a) (record_error l e))
       \<lparr>delays := backoff_delay a # delays (retry_loop op M (Suc a) (record_error l e))\<rparr>"
  by (subst retry_loop.simps) (simp add: record_error_def Let_def)

lemma retry_loop_cases [case_names stop val escape fail retry]:
  assumes "\<And>a l. \<not> int a \<le> M \<Longrightarrow>
             P a l \<lparr>outcome = Inl (throw_lastError l), invocations = a, delays = []\<rparr>"
    and "\<And>a l v. int a \<le> M \<Longrightarrow> op a = Inr v \<Longrightarrow>
             P a l \<lparr>outcome = Inr v, invocations = Suc a, delays = []\<rparr>"
    and "\<And>a l e x. int a \<le> M \<Longrightarrow> op a = Inl e \<Longrightarrow> retryable e = Inl x \<Longrightarrow>
             P a l \<lparr>outcome = Inl x, invocations = Suc a, delays = []\<rparr>"
    and "\<And>a l e b. int a \<le> M \<Longrightarrow> op a = Inl e \<Longrightarrow> retryable e = Inr b \<Longrightarrow>
             \<not> b \<or> int a = M \<Longrightarrow>
             P a l \<lparr>outcome = Inl (throw_lastError (record_error l e)),
                     invocations = Suc a, delays = []\<rparr>"
    and "\<And>a l e r. int a < M \<Longrightarrow> op a = Inl e \<Longrightarrow> retryable e = Inr True \<Longrightarrow>
             P (Suc a) (record_error l e) r \<Longrightarrow>
             P a l (r\<lparr>delays := backoff_delay a # delays r\<rparr>)"
  shows "P a l (retry_loop op M a l)"
proof (induction "nat (M + 1 - int a)" arbitrary: a l)
  case 0
  then have "\<not> int a \<le> M" by linarith
  then show ?case using assms(1) by (simp add: retry_loop_stop)
next
  case (Suc k)
  then have le: "int a \<le> M" by linarith
  show ?case
  proof (cases "op a")
    case (Inr v)
    then show ?thesis
      using assms(2) [OF le]
        retry_loop_value [where op = op and a = a and l = l and v = v and M = M] le
      by simp
  next
    case (Inl e)
    show ?thesis
    proof (cases "retryable e")
      case escape: (Inl x)
      then show ?thesis
        using assms(3) [OF le Inl]
          retry_loop_escape [where op = op and a = a and l = l and e = e and M = M and x = x]
          le Inl
        by simp
    next
      case cls: (Inr b)
      show ?thesis
      proof (cases "\<not> b \<or> int a = M")
        case True
        then show ?thesis
          using assms(4) [OF le Inl cls]
            retry_loop_fail [where op = op and a = a and l = l and e = e and M = M and b = b]
            le Inl cls
          by simp
      next
        case False
        then have r: "retryable e = Inr True" and ne: "int a \<noteq> M" using cls by auto
        from ne le have lt: "int a < M" by simp
        have "k = nat (M + 1 - int (Suc a))" using Suc(2) by linarith
        then have "P (Suc a) (record_error l e) (retry_loop op M (Suc a) (record_error l e))"
          by (rule Suc(1))
        then show ?thesis
          using assms(5) [OF lt Inl r]
            retry_loop_retry [where op = op and a = a and l = l and e = e and M = M]
            le Inl r ne
          by simp
      qed
    qed
  qed
qed

lemma retry_loop_invocations:
  "a \<le> invocations (retry_loop op M a l) \<and>
   (int a \<le> M \<longrightarrow> a < invocations (retry_loop op M a l) \<and>
      int (invocations (retry_loop op M a l)) \<le> M + 1) \<and>
   (\<not> int a \<le> M \<longrightarrow> invocations (retry_loop op M a l) = a)"
  by (rule retry_loop_cases [where P = "\<lambda>a l r. a \<le> invocations r \<and>
     (int a \<le> M \<longrightarrow> a < invocations r \<and> int (invocations r) \<le> M + 1) \<and>
     (\<not> int a \<le> M \<longrightarrow> invocations r = a)"]) auto

lemma retry_loop_delays_aux:
  "a \<le> invocations (retry_loop op M a l) \<and>
   (int a \<le> M \<longrightarrow> a < invocations (retry_loop op M a l)) \<and>
   delays (retry_loop op M a l) = map backoff_delay [a ..< invocations (retry_loop op M a l) - 1]"
proof (rule retry_loop_cases [where P = "\<lambda>a l r. a \<le> invocations r \<and>
     (int a \<le> M \<longrightarrow> a < invocations r) \<and>
     delays r = map backoff_delay [a ..< invocations r - 1]"], goal_cases)
  case (5 a l e r)
  then have "Suc a < invocations r" by simp
  then have "[a ..< invocations r - 1] = a # [Suc a ..< invocations r - 1]"
    by (simp add: upt_conv_Cons)
  with 5 show ?case by simp
qed auto

lemma retry_loop_retried:
  "\<forall>i. a \<le> i \<and> Suc i < invocations (retry_loop op M a l) \<longrightarrow>
       int i < M \<and> (\<exists>e. op i = Inl e \<and> retryable e = Inr True)"
proof (rule retry_loop_cases [where P = "\<lambda>a l r. \<forall>i. a \<le> i \<and> Suc i < invocations r \<longrightarrow>
       int i < M \<and> (\<exists>e. op i = Inl e \<and> retryable e = Inr True)"], goal_cases)
  case (5 a l e r)
  show ?case
  proof (intro allI impI)
    fix i assume i: "a \<le> i \<and> Suc i < invocations (r\<lparr>delays := backoff_delay a # delays r\<rparr>)"
    show "int i < M \<and> (\<exists>e. op i = Inl e \<and> retryable e = Inr True)"
    proof (cases "i = a")
      case True
      then show ?thesis using 5 by simp
    next
      case False
      with i have "Suc a \<le> i \<and> Suc i < invocations r" by simp
      then show ?thesis using 5(4) by blast
    qed
  qed
qed auto

lemma observed_errors_Cons:
  "a < n \<Longrightarrow> op a = Inl e \<Longrightarrow> observed_errors op a n = e # observed_errors op (Suc a) n"
  by (simp add: observed_errors_def upt_conv_Cons)

lemma observed_errors_single_Inl: "op a = Inl e \<Longrightarrow> observed_errors op a (Suc a) = [e]"
  by (simp add: observed_errors_def)

lemma observed_errors_single_Inr: "op a = Inr v \<Longrightarrow> observed_errors op a (Suc a) = []"
  by (simp add: observed_errors_def)

lemma observed_errors_empty: "observed_errors op a a = []"
  by (simp add: observed_errors_def)

lemma retry_loop_last_call_aux:
  "(int a \<le> M \<longrightarrow> a < invocations (retry_loop op M a l)) \<and>
   (a < invocations (retry_loop op M a l) \<longrightarrow>
      (\<forall>v. op (invocations (retry_loop op M a l) - 1) = Inr v \<longrightarrow>
           outcome (retry_loop op M a l) = Inr v) \<and>
      (\<forall>e x. op (invocations (retry_loop op M a l) - 1) = Inl e \<and> retryable e = Inl x \<longrightarrow>
           outcome (retry_loop op M a l) = Inl x) \<and>
      (\<forall>e b. op (invocations (retry_loop op M a l) - 1) = Inl e \<and> retryable e = Inr b \<longrightarrow>
           (\<not> b \<or> int (invocations (retry_loop op M a l) - 1) = M) \<and>
           outcome (retry_loop op M a l) =
             Inl (throw_lastError (record_errors l
                    (observed_errors op a (invocations (retry_loop op M a l)))))))"
proof (rule retry_loop_cases [where P = "\<lambda>a l r. (int a \<le> M \<longrightarrow> a < invocations r) \<and>
   (a < invocations r \<longrightarrow>
      (\<forall>v. op (invocations r - 1) = Inr v \<longrightarrow> outcome r = Inr v) \<and>
      (\<forall>e x. op (invocations r - 1) = Inl e \<and> retryable e = Inl x \<longrightarrow> outcome r = Inl x) \<and>
      (\<forall>e b. op (invocations r - 1) = Inl e \<and> retryable e = Inr b \<longrightarrow>
           (\<not> b \<or> int (invocations r - 1) = M) \<and>
           outcome r = Inl (throw_lastError (record_errors l
                              (observed_errors op a (invocations r))))))"], goal_cases)
  case (1 a l)
  then show ?case by simp
next
  case (2 a l v)
  then show ?case by simp
next
  case (3 a l e x)
  then show ?case by simp
next
  case (4 a l e b)
  then show ?case
    using observed_errors_single_Inl [of op a e] by (auto simp: record_errors_def)
next
  case (5 a l e r)
  let ?settled = "\<lambda>(l :: thrown option) a (r :: 'a retry_run).
      (\<forall>v. op (invocations r - 1) = Inr v \<longrightarrow> outcome r = Inr v) \<and>
      (\<forall>e x. op (invocations r - 1) = Inl e \<and> retryable e = Inl x \<longrightarrow> outcome r = Inl x) \<and>
      (\<forall>e b. op (invocations r - 1) = Inl e \<and> retryable e = Inr b \<longrightarrow>
           (\<not> b \<or> int (invocations r - 1) = M) \<and>
           outcome r = Inl (throw_lastError (record_errors l
                              (observed_errors op a (invocations r)))))"
  from 5 have lt: "Suc a < invocations r" by simp
  then have lt': "a < invocations r" by simp
  have eq: "record_errors l (observed_errors op a (invocations r)) =
        record_errors (record_error l e) (observed_errors op (Suc a) (invocations r))"
    using observed_errors_Cons [of a "invocations r" op e] lt' 5(2)
    by (simp add: record_errors_def)
  have "?settled (record_error l e) (Suc a) r"
    by (rule 5(4) [THEN conjunct2, THEN mp, OF lt])
  then have "?settled l a r"
    by (simp only: eq)
  have upd: "outcome (r\<lparr>delays := backoff_delay a # delays r\<rparr>) = outcome r"
      "invocations (r\<lparr>delays := backoff_delay a # delays r\<rparr>) = invocations r"
    by simp_all
  from \<open>?settled l a r\<close> have "?settled l a (r\<lparr>delays := backoff_delay a # delays r\<rparr>)"
    by (simp only: upd)
  moreover have "a < invocations (r\<lparr>delays := backoff_delay a # delays r\<rparr>)"
    using lt' by simp
  ultimately show ?case by blast
qed

lemma record_errors_snoc: "record_errors l (es @ [e]) = record_error (record_errors l es) e"
  by (simp add: record_errors_def)

lemma record_errors_no_Error:
  "\<forall>e \<in> set es. \<not> instanceofError e \<Longrightarrow> record_errors l es = l"
  by (induction es arbitrary: l) (simp_all add: record_errors_def record_error_def)

lemma observed_errors_snoc:
  "a \<le> k \<Longrightarrow> op k = Inl e \<Longrightarrow> observed_errors op a (Suc k) = observed_errors op a k @ [e]"
  by (simp add: observed_errors_def)

text \<open>
  Claim C9, as the code has it. \<open>executeWithRetry\<close> calls the operation one call after
  the other, at most \<open>maxRetries + 1\<close> times (never, when \<open>maxRetries < 0\<close>). Every call
  but the last was rejected with a failure classified retryable (code \<open>P1001\<close>,
  \<open>P1002\<close>, \<open>P1008\<close>, \<open>P1017\<close>, or a message holding \<open>ECONNREFUSED\<close> or
  \<open>ETIMEDOUT\<close>) and was followed by a sleep of \<open>min(1000 * 2^attempt, 5000)\<close>
  milliseconds, so a non-retryable failure is never followed by another call. When the
  last call answers, its value is returned. When the last call is rejected and the
  classification of the rejection throws (its \<open>message\<close> is truthy and has no usable
  \<open>includes\<close>), the promise is rejected with what the classification threw. When the
  last call is rejected and classified (not retryable, or retries exhausted), the
  promise is rejected with the last observed rejection that is an instance of \<open>Error\<close>,
  unchanged: this is the last observed rejection itself whenever that is an \<open>Error\<close>;
  and with a new \<open>Error('Unknown database error')\<close> when no observed rejection was an
  \<open>Error\<close>.
\<close>

theorem executeWithRetry_policy:
  fixes operation :: "nat \<Rightarrow> thrown + 'a" and maxRetries :: int
  shows "let r = executeWithRetry operation maxRetries; n = invocations r in
     int n \<le> max 0 (maxRetries + 1) \<and>
     (\<forall>i. Suc i < n \<longrightarrow>
        int i < maxRetries \<and> (\<exists>e. operation i = Inl e \<and> retryable e = Inr True)) \<and>
     delays r = map (\<lambda>attempt. min (1000 * 2 ^ attempt) 5000) [0 ..< n - 1] \<and>
     (\<forall>v. 0 < n \<and> operation (n - 1) = Inr v \<longrightarrow> outcome r = Inr v) \<and>
     (\<forall>e x. 0 < n \<and> operation (n - 1) = Inl e \<and> retryable e = Inl x \<longrightarrow> outcome r = Inl x) \<and>
     (\<forall>e b. 0 < n \<and> operation (n - 1) = Inl e \<and> retryable e = Inr b \<longrightarrow>
        (\<not> b \<or> int (n - 1) = maxRetries) \<and>
        outcome r = Inl (throw_lastError (record_errors None (observed_errors operation 0 n))) \<and>
        (instanceofError e \<longrightarrow> outcome r = Inl e) \<and>
        ((\<forall>e' \<in> set (observed_errors operation 0 n). \<not> instanceofError e') \<longrightarrow>
           outcome r = Inl (new_Error ''Unknown database error''))) \<and>
     (n = 0 \<longrightarrow> maxRetries < 0 \<and> outcome r = Inl (new_Error ''Unknown database error''))"
proof -
  define r where "r = retry_loop operation maxRetries 0 None"
  define n where "n = invocations r"
  have inv: "(int 0 \<le> maxRetries \<longrightarrow> 0 < n \<and> int n \<le> maxRetries + 1) \<and>
      (\<not> int 0 \<le> maxRetries \<longrightarrow> n = 0)"
    using retry_loop_invocations [of 0 operation maxRetries None] by (simp add: r_def n_def)
  have c1: "int n \<le> max 0 (maxRetries + 1)" using inv by (cases "0 \<le> maxRetries") auto
  have c2: "\<forall>i. Suc i < n \<longrightarrow>
      int i < maxRetries \<and> (\<exists>e. operation i = Inl e \<and> retryable e = Inr True)"
    using retry_loop_retried [of 0 operation maxRetries None] by (simp add: r_def n_def)
  have c3: "delays r = map (\<lambda>attempt. min (1000 * 2 ^ attempt) 5000) [0 ..< n - 1]"
    using retry_loop_delays_aux [of 0 operation maxRetries None]
    by (simp add: r_def n_def backoff_delay_def [abs_def])
  have last: "0 < n \<longrightarrow>
      (\<forall>v. operation (n - 1) = Inr v \<longrightarrow> outcome r = Inr v) \<and>
      (\<forall>e x. operation (n - 1) = Inl e \<and> retryable e = Inl x \<longrightarrow> outcome r = Inl x) \<and>
      (\<forall>e b. operation (n - 1) = Inl e \<and> retryable e = Inr b \<longrightarrow>
           (\<not> b \<or> int (n - 1) = maxRetries) \<and>
           outcome r = Inl (throw_lastError (record_errors None
                              (observed_errors operation 0 n))))"
    unfolding n_def r_def by (rule retry_loop_last_call_aux [THEN conjunct2])
  have c4: "\<forall>v. 0 < n \<and> operation (n - 1) = Inr v \<longrightarrow> outcome r = Inr v"
    using last by blast
  have c5: "\<forall>e x. 0 < n \<and> operation (n - 1) = Inl e \<and> retryable e = Inl x \<longrightarrow> outcome r = Inl x"
    using last by blast
  have c6: "\<forall>e b. 0 < n \<and> operation (n - 1) = Inl e \<and> retryable e = Inr b \<longrightarrow>
        (\<not> b \<or> int (n - 1) = maxRetries) \<and>
        outcome r = Inl (throw_lastError (record_errors None (observed_errors operation 0 n))) \<and>
        (instanceofError e \<longrightarrow> outcome r = Inl e) \<and>
        ((\<forall>e' \<in> set (observed_errors operation 0 n). \<not> instanceofError e') \<longrightarrow>
           outcome r = Inl (new_Error ''Unknown database error''))"
  proof (intro allI impI)
    fix e b assume h: "0 < n \<and> operation (n - 1) = Inl e \<and> retryable e = Inr b"
    with last have a: "\<not> b \<or> int (n - 1) = maxRetries"
      and b: "outcome r = Inl (throw_lastError (record_errors None (observed_errors operation 0 n)))"
      by blast+
    have "observed_errors operation 0 (Suc (n - 1)) = observed_errors operation 0 (n - 1) @ [e]"
      using h by (intro observed_errors_snoc) auto
    then have "observed_errors operation 0 n = observed_errors operation 0 (n - 1) @ [e]"
      using h by simp
    then have c: "instanceofError e \<longrightarrow>
        throw_lastError (record_errors None (observed_errors operation 0 n)) = e"
      by (simp add: record_errors_snoc record_error_def throw_lastError_def)
    have d: "(\<forall>e' \<in> set (observed_errors operation 0 n). \<not> instanceofError e') \<longrightarrow>
        throw_lastError (record_errors None (observed_errors operation 0 n)) =
          new_Error ''Unknown database error''"
      by (auto simp: record_errors_no_Error throw_lastError_def)
    from a b c d show "(\<not> b \<or> int (n - 1) = maxRetries) \<and>
        outcome r = Inl (throw_lastError (record_errors None (observed_errors operation 0 n))) \<and>
        (instanceofError e \<longrightarrow> outcome r = Inl e) \<and>
        ((\<forall>e' \<in> set (observed_errors operation 0 n). \<not> instanceofError e') \<longrightarrow>
           outcome r = Inl (new_Error ''Unknown database error''))"
      by simp
  qed
  have c7: "n = 0 \<longrightarrow> maxRetries < 0 \<and> outcome r = Inl (new_Error ''Unknown database error'')"
  proof
    assume z: "n = 0"
    with inv have neg: "maxRetries < 0" by (cases "0 \<le> maxRetries") auto
    then have "r = \<lparr>outcome = Inl (throw_lastError None), invocations = 0, delays = []\<rparr>"
      unfolding r_def by (intro retry_loop_stop) simp
    then show "maxRetries < 0 \<and> outcome r = Inl (new_Error ''Unknown database error'')"
      using neg by (simp add: throw_lastError_def)
  qed
  from c1 c2 c3 c4 c5 c6 c7 show ?thesis
    unfolding executeWithRetry_def Let_def r_def [symmetric] n_def [symmetric] by (intro conjI)
qed

lemma flaky_run:
  "executeWithRetry flaky_operation 2 =
     \<lparr>outcome = Inr 42, invocations = 3, delays = [1000, 2000]\<rparr>"
  by (simp add: executeWithRetry_def retry_loop.simps flaky_operation_def retryable_def
      backoff_delay_def Let_def)

lemma mixed_run:
  "executeWithRetry mixed_operation 1 =
     \<lparr>outcome = Inl (ErrorObject None (MessageString ''connect ECONNREFUSED 127.0.0.1:5432'') None),
      invocations = 2, delays = [1000]\<rparr>"
  by (simp add: executeWithRetry_def retry_loop.simps mixed_operation_def retryable_def
      backoff_delay_def Let_def throw_lastError_def)

lemma numeric_message_retryable:
  "retryable (PlainObject None
      (MessageOther True ''42'' (\<lambda>sub. Inl (not_a_function ''message.includes''))) None)
   = Inl (not_a_function ''message.includes'')"
  by (simp add: retryable_def Let_def)

lemma numeric_message_run:
  "invocations (executeWithRetry numeric_message_operation 2) = 1"
  by (simp add: executeWithRetry_def retry_loop.simps numeric_message_operation_def
      numeric_message_retryable Let_def)

theorem executeWithRetry_policy_witness:
  "invocations (executeWithRetry flaky_operation 2) = 3 \<and>
   delays (executeWithRetry flaky_operation 2) = [1000, 2000] \<and>
   outcome (executeWithRetry flaky_operation 2) = Inr 42 \<and>
   retryable (ErrorObject (Some ''P1001'') (MessageString ''Can not reach database server'') None)
     = Inr True \<and>
   invocations (executeWithRetry mixed_operation 1) = 2 \<and>
   \<not> instanceofError (PlainObject (Some ''P1001'') MessageUndefined None) \<and>
   outcome (executeWithRetry mixed_operation 1) =
     Inl (throw_lastError (record_errors None (observed_errors mixed_operation 0 2))) \<and>
   invocations (executeWithRetry numeric_message_operation 2) = 1 \<and>
   outcome (executeWithRetry numeric_message_operation 2) =
     Inl (not_a_function ''message.includes'')"
proof -
  have n: "invocations (executeWithRetry flaky_operation 2) = 3" by (simp add: flaky_run)
  note p = executeWithRetry_policy [of flaky_operation 2, unfolded Let_def n]
  have last: "0 < (3::nat) \<and> flaky_operation (3 - 1) = Inr 42" by (simp add: flaky_operation_def)
  from p have "\<forall>v. 0 < (3::nat) \<and> flaky_operation (3 - 1) = Inr v \<longrightarrow>
      outcome (executeWithRetry flaky_operation 2) = Inr v" by blast
  with last have a: "outcome (executeWithRetry flaky_operation 2) = Inr 42" by blast
  from p have "delays (executeWithRetry flaky_operation 2) =
      map (\<lambda>attempt. min (1000 * 2 ^ attempt) 5000) [0 ..< 3 - 1]" by blast
  then have b: "delays (executeWithRetry flaky_operation 2) = [1000, 2000]"
    by (simp add: upt_rec)
  from p have "\<forall>i. Suc i < 3 \<longrightarrow>
      int i < 2 \<and> (\<exists>e. flaky_operation i = Inl e \<and> retryable e = Inr True)"
    by blast
  then have "\<exists>e. flaky_operation 0 = Inl e \<and> retryable e = Inr True" by simp
  then have c: "retryable (ErrorObject (Some ''P1001'')
      (MessageString ''Can not reach database server'') None) = Inr True"
    by (simp add: flaky_operation_def)
  have m: "invocations (executeWithRetry mixed_operation 1) = 2" by (simp add: mixed_run)
  note q = executeWithRetry_policy [of mixed_operation 1, unfolded Let_def m]
  have lastm: "0 < (2::nat) \<and>
      mixed_operation (2 - 1) = Inl (PlainObject (Some ''P1001'') MessageUndefined None) \<and>
      retryable (PlainObject (Some ''P1001'') MessageUndefined None) = Inr True"
    by (simp add: mixed_operation_def retryable_def)
  from q have "\<forall>e b. 0 < (2::nat) \<and> mixed_operation (2 - 1) = Inl e \<and> retryable e = Inr b \<longrightarrow>
        (\<not> b \<or> int (2 - 1) = 1) \<and>
        outcome (executeWithRetry mixed_operation 1) =
          Inl (throw_lastError (record_errors None (observed_errors mixed_operation 0 2))) \<and>
        (instanceofError e \<longrightarrow> outcome (executeWithRetry mixed_operation 1) = Inl e) \<and>
        ((\<forall>e' \<in> set (observed_errors mixed_operation 0 2). \<not> instanceofError e') \<longrightarrow>
           outcome (executeWithRetry mixed_operation 1) = Inl (new_Error ''Unknown database error''))"
    by blast
  with lastm have d: "outcome (executeWithRetry mixed_operation 1) =
          Inl (throw_lastError (record_errors None (observed_errors mixed_operation 0 2)))"
    by blast
  have e: "\<not> instanceofError (PlainObject (Some ''P1001'') MessageUndefined None)" by simp
  have k: "invocations (executeWithRetry numeric_message_operation 2) = 1"
    by (rule numeric_message_run)
  note s = executeWithRetry_policy [of numeric_message_operation 2, unfolded Let_def k]
  have lastk: "0 < (1::nat) \<and>
      numeric_message_operation (1 - 1) = Inl (PlainObject None
        (MessageOther True ''42'' (\<lambda>sub. Inl (not_a_function ''message.includes''))) None) \<and>
      retryable (PlainObject None
        (MessageOther True ''42'' (\<lambda>sub. Inl (not_a_function ''message.includes''))) None)
      = Inl (not_a_function ''message.includes'')"
    by (simp add: numeric_message_operation_def numeric_message_retryable)
  from s have "\<forall>e x. 0 < (1::nat) \<and> numeric_message_operation (1 - 1) = Inl e \<and>
      retryable e = Inl x \<longrightarrow> outcome (executeWithRetry numeric_message_operation 2) = Inl x"
    by blast
  with lastk have f: "outcome (executeWithRetry numeric_message_operation 2) =
     Inl (not_a_function ''message.includes'')"
    by blast
  from n b a c m e d k f show ?thesis by (intro conjI)
qed

text \<open>
  The claim as stated, "exhausting the retries throws the last observed error unchanged",
  fails when the last rejection is not an instance of \<open>Error\<close>: \<open>lastError\<close> is only
  assigned under \<open>error instanceof Error\<close>, so with one retry the first rejection is
  thrown, not the last one.
\<close>

theorem executeWithRetry_last_error_counterexample:
  "invocations (executeWithRetry mixed_operation 1) = 2 \<and>
   mixed_operation 0 =
     Inl (ErrorObject None (MessageString ''connect ECONNREFUSED 127.0.0.1:5432'') None) \<and>
   mixed_operation 1 = Inl (PlainObject (Some ''P1001'') MessageUndefined None) \<and>
   outcome (executeWithRetry mixed_operation 1) =
     Inl (ErrorObject None (MessageString ''connect ECONNREFUSED 127.0.0.1:5432'') None) \<and>
   outcome (executeWithRetry mixed_operation 1) \<noteq>
     Inl (PlainObject (Some ''P1001'') MessageUndefined None)"
  by (simp add: mixed_run) (simp add: mixed_operation_def)

section \<open>Vector store adapter\<close>

lemma call_index_configured [simp]: "index_configured (call c w) = index_configured w"
  by (simp add: call_def)

text \<open>
  Claim C7. When the vector index is not configured (\<open>index\<close> is \<open>null\<close>), then for
  every input and whatever the collaborators would do, \<open>upsertDocumentChunks\<close> returns
  without writing anything, \<open>searchRelevantChunks\<close> returns the empty list and
  \<open>deleteMaterialVectors\<close> returns without deleting: the world is unchanged (no table
  written, no external call made) and none of the three throws.
\<close>

theorem unconfigured_index_degrades:
  assumes "\<not> index_configured w"
  shows "upsertDocumentChunks env materialId chs w = (w, None) \<and>
         searchRelevantChunks senv query materialId topK w = (w, Inr []) \<and>
         deleteMaterialVectors deleteMany_outcome materialId w = (w, None)"
  using assms
  by (simp add: upsertDocumentChunks_def searchRelevantChunks_def deleteMaterialVectors_def)

theorem unconfigured_index_degrades_witness:
  "\<not> index_configured (new_world False []) \<and>
   upsertDocumentChunks all_fail_upsert_env ''m1''
     [\<lparr>chunk_id = ''m1-chunk-0'', chunk_text = ''some text'', chunk_pageNumber = 0,
       chunk_chapterNumber = Some 1\<rparr>] (new_world False []) = (new_world False [], None) \<and>
   searchRelevantChunks all_fail_search_env ''what is this?'' ''m1'' 5 (new_world False [])
     = (new_world False [], Inr []) \<and>
   deleteMaterialVectors (Some failure) ''m1'' (new_world False []) = (new_world False [], None)"
proof -
  have off: "\<not> index_configured (new_world False [])" by (simp add: new_world_def)
  from off unconfigured_index_degrades [OF off] show ?thesis by blast
qed

lemma map_indexed_eq: "map_indexed f xs = map (\<lambda>i. f i (xs ! i)) [0 ..< length xs]"
proof -
  have "map_indexed f xs = map (\<lambda>(i, x). f i x) (zip [0 ..< length xs] xs)"
    by (simp add: map_indexed_def enumerate_eq_zip)
  also have "\<dots> = map (\<lambda>i. f i (xs ! i)) [0 ..< length xs]"
    by (rule nth_equalityI) simp_all
  finally show ?thesis .
qed

lemma length_map_indexed [simp]: "length (map_indexed f xs) = length xs"
  by (simp add: map_indexed_eq)


lemma upserted_call:
  "upserted (call c w) = upserted w @ (case c of IndexUpsert batch \<Rightarrow> batch | _ \<Rightarrow> [])"
  by (simp add: upserted_def call_def)

lemma upserted_textChunks [simp]: "upserted (w\<lparr>textChunks := x\<rparr>) = upserted w"
  by (simp add: upserted_def)

lemma upserted_chapters [simp]: "upserted (w\<lparr>chapters := x\<rparr>) = upserted w"
  by (simp add: upserted_def)

lemma upserted_concepts [simp]: "upserted (w\<lparr>concepts := x\<rparr>) = upserted w"
  by (simp add: upserted_def)

lemma upserted_materials [simp]: "upserted (w\<lparr>materials := x\<rparr>) = upserted w"
  by (simp add: upserted_def)




section \<open>Vector records of the pipeline and of the upload scripts\<close>



lemma upserted_create_concepts [simp]:
  "upserted (create_concepts cenv categories materialId number i cs w) = upserted w"
  by (induction cs arbitrary: i w) (simp_all split: option.splits)

lemma upserted_extract_concepts [simp]:
  "upserted (extract_concepts cenv categories materialId chapterText number w) = upserted w"
  by (simp add: extract_concepts_def Let_def upserted_call split: sum.splits)



lemma upserted_whole_document_summary [simp]:
  "upserted (fst (whole_document_summary env text w)) = upserted w"
  by (simp add: whole_document_summary_def Let_def upserted_call)


















section \<open>Chat endpoint\<close>

lemma chat_try_gate:
  assumes "request_json env = Inr body"
    and "body_materialId body = JsonString materialId"
    and "body_question body = JsonString question"
    and "materialId \<noteq> []" and "question \<noteq> []" and "trim question \<noteq> []"
    and "length question \<le> 1000"
    and "findUnique_fails env = None"
    and "Map_get (materials w) materialId = Some material"
  shows "chat_try env w =
     (if processingStatus material = PROCESSING
      then (w, Inr (JsonError 400 ''Material is still being processed''))
      else chat_answer env question materialId (body_conversationHistory body) w)"
  using assms by (simp add: chat_try_def json_falsy_def)

lemma chat_answer_result:
  assumes "chat_search (search_environment env) question materialId w = (w1, found)"
    and "formattedHistory history = Inr formatted"
  shows "fst (chat_answer env question materialId history w) =
           call (AnswerQuestion question (chat_context found) formatted True) w1"
    and "snd (chat_answer env question materialId history w) =
           (case answer_outcome env of
              Inl e \<Rightarrow> Inl e
            | Inr (answer, citations) \<Rightarrow> Inr (JsonAnswer answer citations (map sr_pageNumber found)))"
  using assms by (simp_all add: chat_answer_def Let_def split: sum.splits prod.splits)

lemma chat_answer_malformed:
  assumes "chat_search (search_environment env) question materialId w = (w1, found)"
    and "formattedHistory history = Inl e"
  shows "chat_answer env question materialId history w = (w1, Inl e)"
  using assms by (simp add: chat_answer_def Let_def)

lemma chat_answer_not_400:
  "snd (chat_answer env question materialId history w) \<noteq> Inr (JsonError c msg)"
  by (simp add: chat_answer_def Let_def split: sum.splits prod.splits)

lemma chat_search_empty:
  assumes "searchRelevantChunks senv question materialId 5 w = (w1, r)"
    and "(\<exists>e. r = Inl e) \<or> r = Inr []"
  shows "chat_search senv question materialId w = (w1, [])"
  using assms by (auto simp: chat_search_def)

lemma chat_context_empty: "chat_context [] = []"
  by (simp add: chat_context_def)

lemma chat_POST_catch:
  assumes "database_url_set w"
  shows "chat_POST env w =
     (fst (chat_try env w),
      case snd (chat_try env w) of
        Inr response \<Rightarrow> Inr response
      | Inl error \<Rightarrow>
          (case isRateLimitError error of
             Inl e \<Rightarrow> Inl e
           | Inr limited \<Rightarrow>
               Inr (if limited then JsonError 429 ''Rate limit exceeded''
                    else JsonError 500 ''Failed to process question'')))"
  using assms by (simp add: chat_POST_def split: prod.splits sum.splits)

text \<open>
  Claim C10. Take a chat request that reaches the status check: the database is
  configured, the body parses, \<open>materialId\<close> and \<open>question\<close> are strings that are not
  empty, the question is not blank and has at most 1000 characters, and the lookup finds
  the material. The request is answered with HTTP 400 and
  \<open>Material is still being processed\<close> exactly when the material's \<open>processingStatus\<close> is
  \<open>PROCESSING\<close>, and then nothing else happens. In every other status (\<open>READY\<close> and
  \<open>ERROR\<close> alike) the request goes on to retrieval: \<open>searchRelevantChunks\<close> runs, and
  when it throws or finds no chunk, the context is the empty string and the request does
  not fail for it. With a conversation history that is absent or an array of messages,
  it goes on to answer generation: \<open>answerQuestion\<close> is called with the context built
  from the chunks found, and its answer is returned. (A history of another shape makes
  the handler throw before it calls \<open>answerQuestion\<close>.)
\<close>

theorem chat_status_gate:
  fixes env :: "('v, 'c) chat_env"
  assumes db: "database_url_set w"
    and body: "request_json env = Inr body"
    and mid: "body_materialId body = JsonString materialId" "materialId \<noteq> []"
    and q: "body_question body = JsonString question" "trim question \<noteq> []"
           "length question \<le> 1000"
    and found: "findUnique_fails env = None" "Map_get (materials w) materialId = Some material"
  shows "(snd (chat_POST env w) = Inr (JsonError 400 ''Material is still being processed'')
            \<longleftrightarrow> processingStatus material = PROCESSING) \<and>
         (processingStatus material = PROCESSING \<longrightarrow> fst (chat_POST env w) = w) \<and>
         (processingStatus material \<noteq> PROCESSING \<longrightarrow>
            (\<exists>w1 r relevantChunks.
                searchRelevantChunks (search_environment env) question materialId 5 w = (w1, r) \<and>
                relevantChunks = (case r of Inl e \<Rightarrow> [] | Inr cs \<Rightarrow> cs) \<and>
                (((\<exists>e. r = Inl e) \<or> r = Inr []) \<longrightarrow> chat_context relevantChunks = []) \<and>
                (\<forall>formatted.
                   formattedHistory (body_conversationHistory body) = Inr formatted \<longrightarrow>
                   fst (chat_POST env w) =
                     call (AnswerQuestion question (chat_context relevantChunks) formatted True) w1 \<and>
                   (\<forall>answer citations. answer_outcome env = Inr (answer, citations) \<longrightarrow>
                      snd (chat_POST env w) =
                        Inr (JsonAnswer answer citations (map sr_pageNumber relevantChunks)))) \<and>
                (\<forall>e. formattedHistory (body_conversationHistory body) = Inl e \<longrightarrow>
                   fst (chat_POST env w) = w1)))"
proof -
  have qne: "question \<noteq> []" using q(2) by (auto simp: trim_def)
  note gate = chat_try_gate [OF body mid(1) q(1) mid(2) qne q(2) q(3) found]
  note post = chat_POST_catch [OF db, of env]
  show ?thesis
  proof (cases "processingStatus material = PROCESSING")
    case True
    then have "chat_POST env w = (w, Inr (JsonError 400 ''Material is still being processed''))"
      using gate post by simp
    then show ?thesis using True by simp
  next
    case False
    obtain w1 r where s: "searchRelevantChunks (search_environment env) question materialId 5 w = (w1, r)"
      by (cases "searchRelevantChunks (search_environment env) question materialId 5 w")
    define relevantChunks where "relevantChunks = (case r of Inl e \<Rightarrow> [] | Inr cs \<Rightarrow> cs)"
    have cs: "chat_search (search_environment env) question materialId w = (w1, relevantChunks)"
      using s by (simp add: chat_search_def relevantChunks_def split: sum.splits)
    have t: "chat_try env w = chat_answer env question materialId (body_conversationHistory body) w"
      using gate False by simp
    have not400: "snd (chat_POST env w) \<noteq> Inr (JsonError 400 ''Material is still being processed'')"
    proof (cases "snd (chat_try env w)")
      case (Inr response)
      then have "response \<noteq> JsonError 400 ''Material is still being processed''"
        using chat_answer_not_400 [of env question materialId "body_conversationHistory body" w]
        unfolding t by auto
      then show ?thesis using post Inr by simp
    next
      case (Inl error)
      then show ?thesis using post by (simp split: sum.splits)
    qed
    have ok: "\<forall>formatted.
        formattedHistory (body_conversationHistory body) = Inr formatted \<longrightarrow>
        fst (chat_POST env w) =
          call (AnswerQuestion question (chat_context relevantChunks) formatted True) w1 \<and>
        (\<forall>answer citations. answer_outcome env = Inr (answer, citations) \<longrightarrow>
           snd (chat_POST env w) =
             Inr (JsonAnswer answer citations (map sr_pageNumber relevantChunks)))"
    proof (intro allI impI)
      fix formatted
      assume h: "formattedHistory (body_conversationHistory body) = Inr formatted"
      have w': "fst (chat_POST env w) =
          call (AnswerQuestion question (chat_context relevantChunks) formatted True) w1"
        using post t chat_answer_result(1) [OF cs h] by simp
      have ans: "\<forall>answer citations. answer_outcome env = Inr (answer, citations) \<longrightarrow>
           snd (chat_POST env w) =
             Inr (JsonAnswer answer citations (map sr_pageNumber relevantChunks))"
        using post t chat_answer_result(2) [OF cs h] by simp
      from w' ans show "fst (chat_POST env w) =
          call (AnswerQuestion question (chat_context relevantChunks) formatted True) w1 \<and>
        (\<forall>answer citations. answer_outcome env = Inr (answer, citations) \<longrightarrow>
           snd (chat_POST env w) =
             Inr (JsonAnswer answer citations (map sr_pageNumber relevantChunks)))"
        by (rule conjI)
    qed
    have bad: "\<forall>e. formattedHistory (body_conversationHistory body) = Inl e \<longrightarrow>
        fst (chat_POST env w) = w1"
      using post t chat_answer_malformed [OF cs] by simp
    have empty: "((\<exists>e. r = Inl e) \<or> r = Inr []) \<longrightarrow> chat_context relevantChunks = []"
      by (auto simp: relevantChunks_def chat_context_empty)
    have "\<exists>w1 r relevantChunks.
                searchRelevantChunks (search_environment env) question materialId 5 w = (w1, r) \<and>
                relevantChunks = (case r of Inl e \<Rightarrow> [] | Inr cs \<Rightarrow> cs) \<and>
                (((\<exists>e. r = Inl e) \<or> r = Inr []) \<longrightarrow> chat_context relevantChunks = []) \<and>
                (\<forall>formatted.
                   formattedHistory (body_conversationHistory body) = Inr formatted \<longrightarrow>
                   fst (chat_POST env w) =
                     call (AnswerQuestion question (chat_context relevantChunks) formatted True) w1 \<and>
                   (\<forall>answer citations. answer_outcome env = Inr (answer, citations) \<longrightarrow>
                      snd (chat_POST env w) =
                        Inr (JsonAnswer answer citations (map sr_pageNumber relevantChunks)))) \<and>
                (\<forall>e. formattedHistory (body_conversationHistory body) = Inl e \<longrightarrow>
                   fst (chat_POST env w) = w1)"
      using s relevantChunks_def empty ok bad
      by (intro exI [of _ w1] exI [of _ r] exI [of _ relevantChunks] conjI)
    then show ?thesis using False not400 by simp
  qed
qed

lemma example_trim: "trim ''What is a cell?'' \<noteq> []"
  by (simp add: trim_def isWhiteSpace_def)

lemma example_search_fails:
  "searchRelevantChunks all_fail_search_env ''What is a cell?'' ''m1'' 5
     (new_world True [(''m1'', material_in ERROR)]) =
   (call (LocalEmbedding ''What is a cell?'') (new_world True [(''m1'', material_in ERROR)]),
    Inl failure)"
  by (simp add: searchRelevantChunks_def all_fail_search_env_def new_world_def Let_def)

theorem chat_status_gate_witness:
  "snd (chat_POST example_chat_env (new_world True [(''m1'', material_in PROCESSING)])) =
     Inr (JsonError 400 ''Material is still being processed'') \<and>
   fst (chat_POST example_chat_env (new_world True [(''m1'', material_in PROCESSING)])) =
     new_world True [(''m1'', material_in PROCESSING)] \<and>
   snd (chat_POST example_chat_env (new_world True [(''m1'', material_in ERROR)])) =
     Inr (JsonAnswer ''The basic unit of life.'' [] []) \<and>
   fst (chat_POST example_chat_env (new_world True [(''m1'', material_in ERROR)])) =
     call (AnswerQuestion ''What is a cell?'' [] [] True)
       (call (LocalEmbedding ''What is a cell?'') (new_world True [(''m1'', material_in ERROR)]))"
proof -
  let ?P = "new_world True [(''m1'', material_in PROCESSING)] :: nat world"
  let ?E = "new_world True [(''m1'', material_in ERROR)] :: nat world"
  have db: "database_url_set ?P" "database_url_set ?E" by (simp_all add: new_world_def)
  have body: "request_json example_chat_env = Inr example_body"
    by (simp add: example_chat_env_def)
  have mid: "body_materialId example_body = JsonString ''m1''" "''m1'' \<noteq> []"
    by (simp_all add: example_body_def)
  have q: "body_question example_body = JsonString ''What is a cell?''"
      "length ''What is a cell?'' \<le> 1000"
    by (simp_all add: example_body_def)
  have fu: "findUnique_fails example_chat_env = None" by (simp add: example_chat_env_def)
  have mP: "Map_get (materials ?P) ''m1'' = Some (material_in PROCESSING)"
    by (simp add: new_world_def Map_get_def)
  have mE: "Map_get (materials ?E) ''m1'' = Some (material_in ERROR)"
    by (simp add: new_world_def Map_get_def)
  have stP: "processingStatus (material_in PROCESSING) = PROCESSING"
    and stE: "processingStatus (material_in ERROR) \<noteq> PROCESSING"
    by (simp_all add: material_in_def)
  have hist: "formattedHistory (body_conversationHistory example_body) = Inr []"
    by (simp add: formattedHistory_def example_body_def)
  note gP = chat_status_gate [OF db(1) body mid q(1) example_trim q(2) fu mP]
  note gE = chat_status_gate [OF db(2) body mid q(1) example_trim q(2) fu mE]
  from gP stP have a: "snd (chat_POST example_chat_env ?P) =
      Inr (JsonError 400 ''Material is still being processed'')"
    and b: "fst (chat_POST example_chat_env ?P) = ?P"
    by simp_all
  have "processingStatus (material_in ERROR) \<noteq> PROCESSING \<longrightarrow>
            (\<exists>w1 r relevantChunks.
                searchRelevantChunks (search_environment example_chat_env) ''What is a cell?'' ''m1'' 5 ?E = (w1, r) \<and>
                relevantChunks = (case r of Inl e \<Rightarrow> [] | Inr cs \<Rightarrow> cs) \<and>
                (((\<exists>e. r = Inl e) \<or> r = Inr []) \<longrightarrow> chat_context relevantChunks = []) \<and>
                (\<forall>formatted.
                   formattedHistory (body_conversationHistory example_body) = Inr formatted \<longrightarrow>
                   fst (chat_POST example_chat_env ?E) =
                     call (AnswerQuestion ''What is a cell?'' (chat_context relevantChunks) formatted True) w1 \<and>
                   (\<forall>answer citations. answer_outcome example_chat_env = Inr (answer, citations) \<longrightarrow>
                      snd (chat_POST example_chat_env ?E) =
                        Inr (JsonAnswer answer citations (map sr_pageNumber relevantChunks)))) \<and>
                (\<forall>e. formattedHistory (body_conversationHistory example_body) = Inl e \<longrightarrow>
                   fst (chat_POST example_chat_env ?E) = w1))"
    using gE by (rule conjunct2 [THEN conjunct2])
  from this [THEN mp, OF stE] obtain w1 r relevantChunks where
    s: "searchRelevantChunks (search_environment example_chat_env) ''What is a cell?'' ''m1'' 5 ?E = (w1, r)"
    and rc: "relevantChunks = (case r of Inl e \<Rightarrow> [] | Inr cs \<Rightarrow> cs)"
    and wf: "\<forall>formatted.
                   formattedHistory (body_conversationHistory example_body) = Inr formatted \<longrightarrow>
                   fst (chat_POST example_chat_env ?E) =
                     call (AnswerQuestion ''What is a cell?'' (chat_context relevantChunks) formatted True) w1 \<and>
                   (\<forall>answer citations. answer_outcome example_chat_env = Inr (answer, citations) \<longrightarrow>
                      snd (chat_POST example_chat_env ?E) =
                        Inr (JsonAnswer answer citations (map sr_pageNumber relevantChunks)))"
    by (elim exE conjE) (rule that)
  from wf [rule_format, OF hist] have
    w': "fst (chat_POST example_chat_env ?E) =
           call (AnswerQuestion ''What is a cell?'' (chat_context relevantChunks) [] True) w1"
    and ans: "\<forall>answer citations. answer_outcome example_chat_env = Inr (answer, citations) \<longrightarrow>
                   snd (chat_POST example_chat_env ?E) =
                     Inr (JsonAnswer answer citations (map sr_pageNumber relevantChunks))"
    by (rule conjunct1, rule conjunct2)
  have env: "search_environment example_chat_env = all_fail_search_env"
    "answer_outcome example_chat_env = Inr (''The basic unit of life.'', [])"
    by (simp_all add: example_chat_env_def)
  from s have w1: "w1 = call (LocalEmbedding ''What is a cell?'') ?E" and r: "r = Inl failure"
    unfolding env example_search_fails by simp_all
  from rc r have none: "relevantChunks = []" by simp
  have c: "snd (chat_POST example_chat_env ?E) = Inr (JsonAnswer ''The basic unit of life.'' [] [])"
    using ans env(2) none by simp
  have d: "fst (chat_POST example_chat_env ?E) =
     call (AnswerQuestion ''What is a cell?'' [] [] True)
       (call (LocalEmbedding ''What is a cell?'') ?E)"
    using w' w1 none by (simp add: chat_context_empty)
  from a b c d show ?thesis by (intro conjI)
qed

section \<open>Chat endpoint and the search cache\<close>

lemma searchCache_state_call [simp]: "searchCache_state (call c w) = searchCache_state w"
  by (simp add: call_def)

lemma searchCache_state_search [simp]:
  "searchCache_state (fst (searchRelevantChunks senv query materialId topK w)) = searchCache_state w"
  by (simp add: searchRelevantChunks_def Let_def split: sum.splits option.splits)

lemma searchCache_state_chat_search [simp]:
  "searchCache_state (fst (chat_search senv question materialId w)) = searchCache_state w"
proof -
  obtain w1 r where s: "searchRelevantChunks senv question materialId 5 w = (w1, r)"
    by (cases "searchRelevantChunks senv question materialId 5 w")
  then have "searchCache_state w1 = searchCache_state w"
    using searchCache_state_search [of senv question materialId 5 w] by simp
  then show ?thesis using s by (simp add: chat_search_def split: sum.splits)
qed

lemma searchCache_state_chat_answer [simp]:
  "searchCache_state (fst (chat_answer env question materialId history w)) = searchCache_state w"
proof -
  obtain w1 found where s: "chat_search (search_environment env) question materialId w = (w1, found)"
    by (cases "chat_search (search_environment env) question materialId w")
  then have w1: "searchCache_state w1 = searchCache_state w"
    using searchCache_state_chat_search [of "search_environment env" question materialId w] by simp
  show ?thesis
  proof (cases "formattedHistory history")
    case (Inl e)
    then show ?thesis using chat_answer_malformed [OF s] w1 by simp
  next
    case (Inr formatted)
    then show ?thesis using chat_answer_result(1) [OF s] w1 by simp
  qed
qed

lemma searchCache_state_chat_try [simp]:
  "searchCache_state (fst (chat_try env w)) = searchCache_state w"
  by (simp add: chat_try_def split: sum.splits option.splits json_field.splits)














section \<open>Chapter detection\<close>

lemma first_matching_None:
  "first_matching ps text = None \<longleftrightarrow> (\<forall>p \<in> set ps. matchAll (pieces p) text = [])"
  by (induction ps) (simp_all add: Let_def)

lemma first_matching_nth:
  assumes "k < length ps"
    and "\<forall>j<k. matchAll (pieces (ps ! j)) text = []"
    and "matchAll (pieces (ps ! k)) text \<noteq> []"
  shows "first_matching ps text = Some (ps ! k, matchAll (pieces (ps ! k)) text)"
  using assms
proof (induction ps arbitrary: k)
  case Nil
  then show ?case by simp
next
  case (Cons p ps)
  show ?case
  proof (cases k)
    case 0
    then show ?thesis using Cons.prems by (simp add: Let_def)
  next
    case (Suc k')
    have first: "matchAll (pieces p) text = []" using Cons.prems(2) Suc by auto
    have "\<forall>j<k'. matchAll (pieces (ps ! j)) text = []"
    proof (intro allI impI)
      fix j assume "j < k'"
      then have "Suc j < k" using Suc by simp
      then have "matchAll (pieces ((p # ps) ! Suc j)) text = []" using Cons.prems(2) by blast
      then show "matchAll (pieces (ps ! j)) text = []" by simp
    qed
    then have "first_matching ps text = Some (ps ! k', matchAll (pieces (ps ! k')) text)"
      using Cons.prems Suc by (intro Cons.IH) simp_all
    then show ?thesis using first Suc by (simp add: Let_def)
  qed
qed

lemma collect_chapters_indices:
  "collect_chapters p textLength seenNumbers ms =
     map (\<lambda>i. \<lparr>dc_number = parseInt (group1 p (m_pieces (ms ! i))),
                dc_title = trim (group2 p (m_pieces (ms ! i))),
                dc_startIndex = m_index (ms ! i),
                dc_endIndex = (if Suc i < length ms then m_index (ms ! Suc i) else textLength)\<rparr>)
         (filter (\<lambda>i. parseInt (group1 p (m_pieces (ms ! i))) \<notin> set seenNumbers \<and>
                       (\<forall>j<i. parseInt (group1 p (m_pieces (ms ! j))) \<noteq>
                               parseInt (group1 p (m_pieces (ms ! i)))))
                 [0 ..< length ms])"
proof (induction ms arbitrary: seenNumbers)
  case Nil
  then show ?case by simp
next
  case (Cons m rest)
  let ?num = "\<lambda>x. parseInt (group1 p (m_pieces x))"
  let ?ch = "\<lambda>ms i. \<lparr>dc_number = ?num (ms ! i),
                dc_title = trim (group2 p (m_pieces (ms ! i))),
                dc_startIndex = m_index (ms ! i),
                dc_endIndex = (if Suc i < length ms then m_index (ms ! Suc i) else textLength)\<rparr>"
  let ?keep = "\<lambda>seen ms i. ?num (ms ! i) \<notin> set seen \<and> (\<forall>j<i. ?num (ms ! j) \<noteq> ?num (ms ! i))"
  have upt: "[0 ..< length (m # rest)] = 0 # map Suc [0 ..< length rest]"
    by (simp add: upt_conv_Cons map_Suc_upt del: upt_Suc)
  have tail_ch: "map (?ch (m # rest)) (map Suc xs) = map (?ch rest) xs" for xs
    by simp
  have all_Suc: "(\<forall>j<Suc i. P j) \<longleftrightarrow> P 0 \<and> (\<forall>j<i. P (Suc j))" for i and P :: "nat \<Rightarrow> bool"
    by (auto simp: less_Suc_eq_0_disj)
  have tail_keep: "filter (?keep seen (m # rest)) (map Suc xs) =
      map Suc (filter (\<lambda>i. ?num (rest ! i) \<notin> set seen \<and> ?num m \<noteq> ?num (rest ! i) \<and>
                             (\<forall>j<i. ?num (rest ! j) \<noteq> ?num (rest ! i))) xs)" for seen xs
    by (simp add: filter_map comp_def all_Suc)
  show ?case
  proof (cases "?num m \<in> set seenNumbers")
    case True
    have same: "(?num (rest ! i) \<notin> set seenNumbers \<and> ?num m \<noteq> ?num (rest ! i) \<and>
                 (\<forall>j<i. ?num (rest ! j) \<noteq> ?num (rest ! i))) =
                ?keep seenNumbers rest i" for i
      using True by auto
    have "collect_chapters p textLength seenNumbers (m # rest) =
        collect_chapters p textLength seenNumbers rest"
      using True by (simp add: Let_def)
    also have "\<dots> = map (?ch rest) (filter (?keep seenNumbers rest) [0 ..< length rest])"
      by (rule Cons.IH)
    also have "\<dots> = map (?ch (m # rest)) (filter (?keep seenNumbers (m # rest)) [0 ..< length (m # rest)])"
      unfolding upt using True by (simp only: filter.simps tail_keep same) simp
    finally show ?thesis .
  next
    case False
    have same: "(?num (rest ! i) \<notin> set seenNumbers \<and> ?num m \<noteq> ?num (rest ! i) \<and>
                 (\<forall>j<i. ?num (rest ! j) \<noteq> ?num (rest ! i))) =
                ?keep (?num m # seenNumbers) rest i" for i
      by auto
    have head: "(case rest of [] \<Rightarrow> textLength | next_match # _ \<Rightarrow> m_index next_match) =
        (if Suc 0 < length (m # rest) then m_index ((m # rest) ! Suc 0) else textLength)"
      by (cases rest) simp_all
    have "collect_chapters p textLength seenNumbers (m # rest) =
        ?ch (m # rest) 0 # collect_chapters p textLength (?num m # seenNumbers) rest"
      using False head by (simp add: Let_def)
    also have "collect_chapters p textLength (?num m # seenNumbers) rest =
        map (?ch rest) (filter (?keep (?num m # seenNumbers) rest) [0 ..< length rest])"
      by (rule Cons.IH)
    also have "?ch (m # rest) 0 # map (?ch rest) (filter (?keep (?num m # seenNumbers) rest) [0 ..< length rest])
        = map (?ch (m # rest)) (filter (?keep seenNumbers (m # rest)) [0 ..< length (m # rest)])"
      unfolding upt using False by (simp only: filter.simps tail_keep same) simp
    finally show ?thesis .
  qed
qed

lemma first_occurrences_distinct:
  "distinct (map f (filter (\<lambda>i. \<forall>j<i. f j \<noteq> f i) [0 ..< n]))"
proof -
  have "inj_on f (set (filter (\<lambda>i. \<forall>j<i. f j \<noteq> f i) [0 ..< n]))"
  proof (rule inj_onI)
    fix x y
    assume x: "x \<in> set (filter (\<lambda>i. \<forall>j<i. f j \<noteq> f i) [0 ..< n])"
      and y: "y \<in> set (filter (\<lambda>i. \<forall>j<i. f j \<noteq> f i) [0 ..< n])"
      and eq: "f x = f y"
    show "x = y"
    proof (rule ccontr)
      assume "x \<noteq> y"
      then consider "x < y" | "y < x" by linarith
      then show False
      proof cases
        case 1
        then show False using y eq by auto
      next
        case 2
        then show False using x eq by auto
      qed
    qed
  qed
  then show ?thesis by (simp add: distinct_map)
qed

text \<open>
  Claim C8. When no chapter pattern matches anywhere in the text, \<open>detectChapters\<close>
  returns exactly one chapter: number 1, title \<open>Full Document\<close>, from index 0 to the
  length of the text. Otherwise the matches of the first pattern that has any are taken
  in order; each match gives a chapter (its number parsed from the first group, its
  title the trimmed second group, its start the index of the match, its end the index of
  the next match or the length of the text), and a match is kept exactly when no earlier
  match has the same number. So no two chapters returned have the same number, and each
  number stands for its first occurrence. (Numbers are compared as JavaScript numbers:
  two digit strings from \<open>2^53\<close> on that round to the same double count as the same
  number.)
\<close>

theorem detectChapters_fallback_and_first_occurrence:
  "((\<forall>p \<in> set chapterPatterns. matchAll (pieces p) text = []) \<longrightarrow>
      detectChapters text =
        [\<lparr>dc_number = Number 1, dc_title = ''Full Document'', dc_startIndex = 0,
          dc_endIndex = length text\<rparr>]) \<and>
   (\<forall>k < length chapterPatterns.
      (\<forall>j<k. matchAll (pieces (chapterPatterns ! j)) text = []) \<and>
      matchAll (pieces (chapterPatterns ! k)) text \<noteq> [] \<longrightarrow>
      (let p = chapterPatterns ! k;
           ms = matchAll (pieces p) text;
           number = (\<lambda>i. parseInt (group1 p (m_pieces (ms ! i))))
       in detectChapters text =
            map (\<lambda>i. \<lparr>dc_number = number i,
                       dc_title = trim (group2 p (m_pieces (ms ! i))),
                       dc_startIndex = m_index (ms ! i),
                       dc_endIndex = (if Suc i < length ms then m_index (ms ! Suc i)
                                      else length text)\<rparr>)
                (filter (\<lambda>i. \<forall>j<i. number j \<noteq> number i) [0 ..< length ms]) \<and>
          distinct (map dc_number (detectChapters text))))"
proof (intro conjI allI impI)
  assume "\<forall>p \<in> set chapterPatterns. matchAll (pieces p) text = []"
  then have "first_matching chapterPatterns text = None"
    by (simp only: first_matching_None)
  then show "detectChapters text =
        [\<lparr>dc_number = Number 1, dc_title = ''Full Document'', dc_startIndex = 0,
          dc_endIndex = length text\<rparr>]"
    by (simp add: detectChapters_def)
next
  fix k
  assume k: "k < length chapterPatterns"
    and h: "(\<forall>j<k. matchAll (pieces (chapterPatterns ! j)) text = []) \<and>
      matchAll (pieces (chapterPatterns ! k)) text \<noteq> []"
  define p where "p = chapterPatterns ! k"
  define ms where "ms = matchAll (pieces p) text"
  define number where "number = (\<lambda>i. parseInt (group1 p (m_pieces (ms ! i))))"
  define kept where "kept = filter (\<lambda>i. \<forall>j<i. number j \<noteq> number i) [0 ..< length ms]"
  define ch where "ch = (\<lambda>i. \<lparr>dc_number = number i,
                       dc_title = trim (group2 p (m_pieces (ms ! i))),
                       dc_startIndex = m_index (ms ! i),
                       dc_endIndex = (if Suc i < length ms then m_index (ms ! Suc i)
                                      else length text)\<rparr>)"
  have ne: "ms \<noteq> []" using h by (simp add: ms_def p_def)
  have fm: "first_matching chapterPatterns text = Some (p, ms)"
    unfolding p_def ms_def using k h by (intro first_matching_nth) simp_all
  have coll: "collect_chapters p (length text) [] ms = map ch kept"
    unfolding ch_def kept_def number_def by (simp add: collect_chapters_indices)
  have "0 \<in> set kept" using ne by (simp add: kept_def)
  then have "kept \<noteq> []" by auto
  then have "map ch kept \<noteq> []" by simp
  then have det: "detectChapters text = map ch kept"
    using fm coll by (simp add: detectChapters_def)
  have numbers: "map dc_number (map ch kept) = map number kept"
    by (simp add: ch_def)
  have "distinct (map number kept)"
    unfolding kept_def by (rule first_occurrences_distinct)
  then have "distinct (map dc_number (map ch kept))"
    by (simp only: numbers)
  then have dist: "distinct (map dc_number (detectChapters text))"
    by (simp only: det)
  from det dist show "let p = chapterPatterns ! k;
           ms = matchAll (pieces p) text;
           number = (\<lambda>i. parseInt (group1 p (m_pieces (ms ! i))))
       in detectChapters text =
            map (\<lambda>i. \<lparr>dc_number = number i,
                       dc_title = trim (group2 p (m_pieces (ms ! i))),
                       dc_startIndex = m_index (ms ! i),
                       dc_endIndex = (if Suc i < length ms then m_index (ms ! Suc i)
                                      else length text)\<rparr>)
                (filter (\<lambda>i. \<forall>j<i. number j \<noteq> number i) [0 ..< length ms]) \<and>
          distinct (map dc_number (detectChapters text))"
    unfolding Let_def ch_def kept_def number_def ms_def p_def
    by (rule conjI)
qed

lemma Number_of_nat_small: "n < 2 ^ 53 \<Longrightarrow> Number_of_nat n = Number n"
  by (simp add: Number_of_nat_def significand_shift.simps [of n] Let_def)

lemma parseInt_examples:
  "parseInt ''1'' = Number 1" "parseInt ''2'' = Number 2"
  "parseInt ''9007199254740992'' = Number 9007199254740992"
  "parseInt ''9007199254740993'' = Number 9007199254740992"
  by (simp_all add: parseInt_def Number_of_nat_def significand_shift.simps Let_def)

lemma plain_text_matches:
  "\<forall>p \<in> set chapterPatterns. matchAll (pieces p) plain_text = []"
  by code_simp

lemma repeated_text_matches:
  "matchAll (pieces pattern_Chapter) repeated_text =
     [\<lparr>m_index = 0, m_pieces = [''C'', ''h'', ''a'', ''p'', ''t'', ''e'', ''r'', '' '', ''1'', '': '', ''A'']\<rparr>,
      \<lparr>m_index = 13, m_pieces = [''c'', ''h'', ''a'', ''p'', ''t'', ''e'', ''r'', '' '', ''1'', '': '', ''B'']\<rparr>,
      \<lparr>m_index = 26, m_pieces = [''C'', ''h'', ''a'', ''p'', ''t'', ''e'', ''r'', '' '', ''2'', '': '', ''C'']\<rparr>]"
  by code_simp

theorem detectChapters_fallback_and_first_occurrence_witness:
  "map (\<lambda>p. matchAll (pieces p) plain_text) chapterPatterns = [[], [], []] \<and>
   detectChapters plain_text =
     [\<lparr>dc_number = Number 1, dc_title = ''Full Document'', dc_startIndex = 0, dc_endIndex = 16\<rparr>] \<and>
   matchAll (pieces (chapterPatterns ! 0)) repeated_text \<noteq> [] \<and>
   detectChapters repeated_text =
     [\<lparr>dc_number = Number 1, dc_title = ''A'', dc_startIndex = 0, dc_endIndex = 13\<rparr>,
      \<lparr>dc_number = Number 2, dc_title = ''C'', dc_startIndex = 26, dc_endIndex = 38\<rparr>] \<and>
   distinct (map dc_number (detectChapters repeated_text))"
proof -
  note plain = detectChapters_fallback_and_first_occurrence [of plain_text, THEN conjunct1]
  from plain [THEN mp, OF plain_text_matches]
  have a: "detectChapters plain_text =
     [\<lparr>dc_number = Number 1, dc_title = ''Full Document'', dc_startIndex = 0, dc_endIndex = 16\<rparr>]"
    by (simp add: plain_text_def)
  have first: "chapterPatterns ! 0 = pattern_Chapter" by (simp add: chapterPatterns_def)
  have k: "0 < length chapterPatterns" by (simp add: chapterPatterns_def)
  have b: "matchAll (pieces (chapterPatterns ! 0)) repeated_text \<noteq> []"
    unfolding first repeated_text_matches by simp
  then have h: "(\<forall>j<0. matchAll (pieces (chapterPatterns ! j)) repeated_text = []) \<and>
      matchAll (pieces (chapterPatterns ! 0)) repeated_text \<noteq> []"
    by simp
  note rep = detectChapters_fallback_and_first_occurrence [of repeated_text, THEN conjunct2,
      rule_format, OF k h, unfolded Let_def first repeated_text_matches]
  have groups: "group1 pattern_Chapter m = m ! 8" "group2 pattern_Chapter m = m ! 10" for m
    by (simp_all add: pattern_Chapter_def)
  have len: "length repeated_text = 38" by (simp add: repeated_text_def)
  have trims: "trim ''A'' = ''A''" "trim ''C'' = ''C''"
    by (simp_all add: trim_def isWhiteSpace_def)
  have three: "[0 ..< 3] = [0, 1, 2]" by (simp add: upt_rec)
  from rep have c: "detectChapters repeated_text =
     [\<lparr>dc_number = Number 1, dc_title = ''A'', dc_startIndex = 0, dc_endIndex = 13\<rparr>,
      \<lparr>dc_number = Number 2, dc_title = ''C'', dc_startIndex = 26, dc_endIndex = 38\<rparr>]"
    by (simp add: groups len trims parseInt_examples three All_less_Suc eval_nat_numeral
        less_Suc_eq)
  from rep have d: "distinct (map dc_number (detectChapters repeated_text))"
    by (rule conjunct2)
  have none: "map (\<lambda>p. matchAll (pieces p) plain_text) chapterPatterns = [[], [], []]"
    using plain_text_matches by (simp add: chapterPatterns_def)
  from none a b c d show ?thesis by (intro conjI)
qed

end
